theory Spec2Isabelle
  imports Complex_Main
begin

section \<open>Numbers, arrays and errors\<close>

text \<open>
  Python floats are modelled as exact reals, one-dimensional numpy arrays as lists and
  two-dimensional arrays as lists of rows.  Every exception the program can raise is a
  value \<^verbatim>\<open>Inl\<close> of the result type.  The one place where a non-finite float decides
  the control flow (a division by a zero weight sum, which numpy answers with nan and a
  warning) is tracked by an option: \<^verbatim>\<open>None\<close> stands for nan.
\<close>

datatype error = ValueError | TypeError | IndexError | AttributeError | ZeroDivisionError

definition bind_result :: "error + 'a \<Rightarrow> ('a \<Rightarrow> error + 'b) \<Rightarrow> error + 'b" where
  "bind_result m f = (case m of Inl e \<Rightarrow> Inl e | Inr v \<Rightarrow> f v)"

text \<open>\<^verbatim>\<open>np.linspace(start, stop, num)\<close>: \<^verbatim>\<open>arange(num) * step + start\<close> with
  \<^verbatim>\<open>step = (stop - start) / (num - 1)\<close>.\<close>

definition linspace :: "real \<Rightarrow> real \<Rightarrow> nat \<Rightarrow> real list" where
  "linspace start stop num =
     map (\<lambda>i. real i * ((stop - start) / real (num - 1)) + start) [0..<num]"

text \<open>\<^verbatim>\<open>x.min()\<close> and \<^verbatim>\<open>x.max()\<close> raise ValueError on an empty array.\<close>

definition np_min :: "real list \<Rightarrow> error + real" where
  "np_min xs = (if xs = [] then Inl ValueError else Inr (Min (set xs)))"

definition np_max :: "real list \<Rightarrow> error + real" where
  "np_max xs = (if xs = [] then Inl ValueError else Inr (Max (set xs)))"

text \<open>\<^verbatim>\<open>np.cumsum\<close> along a row.\<close>

fun cumsum_from :: "real \<Rightarrow> real list \<Rightarrow> real list" where
  "cumsum_from acc [] = []"
| "cumsum_from acc (v # vs) = (acc + v) # cumsum_from (acc + v) vs"

definition cumsum :: "real list \<Rightarrow> real list" where
  "cumsum vs = cumsum_from 0 vs"

text \<open>\<^verbatim>\<open>basis @ coef\<close> for a matrix with \<^verbatim>\<open>ncols\<close> columns: the shapes must
  agree.\<close>

definition dot :: "real list \<Rightarrow> real list \<Rightarrow> real" where
  "dot row coef = (\<Sum>j\<leftarrow>[0..<length row]. row ! j * coef ! j)"

definition matvec :: "nat \<Rightarrow> real list list \<Rightarrow> real list \<Rightarrow> error + real list" where
  "matvec ncols rows coef =
     (if length coef \<noteq> ncols then Inl ValueError else Inr (map (\<lambda>row. dot row coef) rows))"

section \<open>The library's B-spline (scipy.interpolate.BSpline)\<close>

text \<open>
  The constructor validates knots \<^verbatim>\<open>t\<close>, coefficients \<^verbatim>\<open>c\<close> and degree \<^verbatim>\<open>k\<close>;
  with \<^verbatim>\<open>n = len(t) - k - 1\<close> it raises ValueError when \<^verbatim>\<open>n < k + 1\<close>, when the
  knots decrease somewhere, when \<^verbatim>\<open>t[k:n+1]\<close> has fewer than two distinct values, or
  when there are fewer than \<^verbatim>\<open>n\<close> coefficients.
\<close>

record BSpline =
  bs_t :: "real list"
  bs_c :: "real list"
  bs_k :: nat

definition BSpline_init :: "real list \<Rightarrow> real list \<Rightarrow> nat \<Rightarrow> error + BSpline" where
  "BSpline_init t c k =
     (let n = int (length t) - int k - 1 in
      if n < int k + 1 then Inl ValueError
      else if \<not> sorted t then Inl ValueError
      else if length (remdups (take (nat n + 1 - k) (drop k t))) < 2 then Inl ValueError
      else if int (length c) < n then Inl ValueError
      else Inr \<lparr>bs_t = t, bs_c = c, bs_k = k\<rparr>)"

text \<open>
  Evaluation with \<^verbatim>\<open>extrapolate=True\<close>.  The interval search starts at \<^verbatim>\<open>l = k\<close>,
  steps to \<^verbatim>\<open>k + 1\<close> and walks right while \<^verbatim>\<open>xval >= t[l]\<close> and \<^verbatim>\<open>l\<close> has not
  reached \<^verbatim>\<open>n\<close>; the interval is \<^verbatim>\<open>l - 1\<close>, so points left of \<^verbatim>\<open>t[k]\<close> use
  the first interval and points from \<^verbatim>\<open>t[n]\<close> on use the last one.  (The library resumes
  the search from the interval of the previous point, walking left first; on the sorted knots
  the constructor admits, the interval found is the same.)
\<close>

function find_interval_loop :: "real list \<Rightarrow> nat \<Rightarrow> real \<Rightarrow> nat \<Rightarrow> nat" where
  "find_interval_loop t n xval l =
     (if l < n \<and> t ! l \<le> xval then find_interval_loop t n xval (Suc l) else l)"
  by pat_completeness auto
termination
  by (relation "measure (\<lambda>(t, n, xval, l). n - l)") auto

declare find_interval_loop.simps [simp del]

definition find_interval :: "real list \<Rightarrow> nat \<Rightarrow> real \<Rightarrow> nat" where
  "find_interval t k xval = find_interval_loop t (length t - k - 1) xval (Suc k) - 1"

text \<open>
  De Boor's recurrence for the \<^verbatim>\<open>k + 1\<close> B-splines that are non-zero on the interval
  \<^verbatim>\<open>ell\<close>: level \<^verbatim>\<open>j\<close> turns the \<^verbatim>\<open>j\<close> values \<^verbatim>\<open>hh\<close> of degree \<^verbatim>\<open>j - 1\<close>
  into \<^verbatim>\<open>j + 1\<close> values of degree \<^verbatim>\<open>j\<close>.  For \<^verbatim>\<open>n = 1..j\<close>, with
  \<^verbatim>\<open>xb = t[ell + n]\<close> and \<^verbatim>\<open>xa = t[ell + n - j]\<close>, the weight is
  \<^verbatim>\<open>w = hh[n - 1] / (xb - xa)\<close> (nothing is added when \<^verbatim>\<open>xb = xa\<close>);
  \<^verbatim>\<open>h[n - 1]\<close> gains \<^verbatim>\<open>w * (xb - x)\<close> and \<^verbatim>\<open>h[n]\<close> is \<^verbatim>\<open>w * (x - xa)\<close>.
\<close>

definition deBoor_w :: "real list \<Rightarrow> nat \<Rightarrow> nat \<Rightarrow> real list \<Rightarrow> nat \<Rightarrow> real" where
  "deBoor_w t ell j hh n =
     (let xb = t ! (ell + n); xa = t ! (ell + n - j)
      in if xb = xa then 0 else hh ! (n - 1) / (xb - xa))"

definition deBoor_level :: "real list \<Rightarrow> real \<Rightarrow> nat \<Rightarrow> nat \<Rightarrow> real list \<Rightarrow> real list" where
  "deBoor_level t x ell j hh =
     map (\<lambda>a. (if 1 \<le> a then deBoor_w t ell j hh a * (x - t ! (ell + a - j)) else 0)
             + (if a < j then deBoor_w t ell j hh (a + 1) * (t ! (ell + a + 1) - x) else 0))
         [0..<Suc j]"

definition deBoor_D :: "real list \<Rightarrow> real \<Rightarrow> nat \<Rightarrow> nat \<Rightarrow> real list" where
  "deBoor_D t x k ell = fold (\<lambda>j hh. deBoor_level t x ell j hh) [1..<Suc k] [1]"

definition BSpline_call :: "BSpline \<Rightarrow> real \<Rightarrow> real" where
  "BSpline_call s xval =
     (let k = bs_k s; t = bs_t s;
          interval = find_interval t k xval;
          work = deBoor_D t xval k interval
      in \<Sum>a\<leftarrow>[0..<Suc k]. bs_c s ! (interval + a - k) * work ! a)"

section \<open>spline\_fitting.py: the basis\<close>

definition resolve_bound :: "real option \<Rightarrow> error + real \<Rightarrow> error + real" where
  "resolve_bound b dflt = (case b of None \<Rightarrow> dflt | Some v \<Rightarrow> Inr v)"

definition n_interior_knots :: "nat \<Rightarrow> nat \<Rightarrow> nat" where
  "n_interior_knots n_basis degree =
     (let n_interior = int n_basis - int degree - 1
      in if n_interior < 0 then 0 else nat n_interior)"

definition knot_sequence :: "real \<Rightarrow> real \<Rightarrow> nat \<Rightarrow> nat \<Rightarrow> real list" where
  "knot_sequence x_min x_max degree n_interior =
     replicate (degree + 1) x_min
     @ butlast (tl (linspace x_min x_max (n_interior + 2)))
     @ replicate (degree + 1) x_max"

definition unit_vector :: "nat \<Rightarrow> nat \<Rightarrow> real list" where
  "unit_vector n i = (replicate n 0)[i := 1]"

fun sequence_result :: "(error + 'a) list \<Rightarrow> error + 'a list" where
  "sequence_result [] = Inr []"
| "sequence_result (m # ms) =
     bind_result m (\<lambda>v. bind_result (sequence_result ms) (\<lambda>vs. Inr (v # vs)))"

text \<open>The basis matrix is returned as its list of rows, one row per point of \<^verbatim>\<open>x\<close>.\<close>

definition create_bspline_basis ::
  "real list \<Rightarrow> nat \<Rightarrow> nat \<Rightarrow> real option \<Rightarrow> real option \<Rightarrow> error + (real list list \<times> real list)" where
  "create_bspline_basis x n_basis degree x_min x_max =
     bind_result (resolve_bound x_min (np_min x)) (\<lambda>x_min.
     bind_result (resolve_bound x_max (np_max x)) (\<lambda>x_max.
       let knots = knot_sequence x_min x_max degree (n_interior_knots n_basis degree) in
       bind_result
         (sequence_result (map (\<lambda>i. BSpline_init knots (unit_vector n_basis i) degree) [0..<n_basis]))
         (\<lambda>splines. Inr (map (\<lambda>xv. map (\<lambda>spline. BSpline_call spline xv) splines) x, knots))))"

definition reverse_cumsum :: "real list \<Rightarrow> real list" where
  "reverse_cumsum row = rev (cumsum (rev row))"

definition create_ispline_basis ::
  "real list \<Rightarrow> nat \<Rightarrow> nat \<Rightarrow> real option \<Rightarrow> real option \<Rightarrow> error + (real list list \<times> real list)" where
  "create_ispline_basis x n_basis degree x_min x_max =
     bind_result (resolve_bound x_min (np_min x)) (\<lambda>x_min.
     bind_result (resolve_bound x_max (np_max x)) (\<lambda>x_max.
     bind_result (create_bspline_basis [x_max] (n_basis + 1) degree (Some x_min) (Some x_max))
       (\<lambda>(bspline_at_max, knots).
         let bspline_max_reversed = map tl bspline_at_max;
             ispline_at_max = map reverse_cumsum bspline_max_reversed;
             norm_constants = map (\<lambda>v. if v = 0 then 1 else v) (ispline_at_max ! 0)
         in
         bind_result (create_bspline_basis x (n_basis + 1) degree (Some x_min) (Some x_max))
           (\<lambda>(bspline_basis, _).
             let bspline_reversed = map tl bspline_basis;
                 ispline_basis = map reverse_cumsum bspline_reversed
             in Inr (map (\<lambda>row. map2 (\<lambda>v c. v / c) row norm_constants) ispline_basis, knots)))))"

section \<open>spline\_fitting.py: evaluation\<close>

text \<open>
  The parameter dictionary of a fitted curve.  The keys \<^verbatim>\<open>degree\<close> and
  \<^verbatim>\<open>globalIntercept\<close> may be absent (\<^verbatim>\<open>params.get('degree', 3)\<close>; the second is
  added by the calibration).
\<close>

record spline_params =
  p_coefficients :: "real list"
  p_intercept :: real
  p_n_basis :: nat
  p_degree :: "nat option"
  p_x_min :: real
  p_x_max :: real
  p_knots :: "real list"
  p_globalIntercept :: "real option"

definition get_degree :: "spline_params \<Rightarrow> nat" where
  "get_degree params = (case p_degree params of None \<Rightarrow> 3 | Some d \<Rightarrow> d)"

definition evaluate_monotone_spline :: "real list \<Rightarrow> spline_params \<Rightarrow> error + real list" where
  "evaluate_monotone_spline x params =
     (let coef = p_coefficients params;
          intercept = p_intercept params;
          n_basis = p_n_basis params;
          degree = get_degree params;
          x_min = p_x_min params;
          x_max = p_x_max params
      in bind_result (create_ispline_basis x n_basis degree (Some x_min) (Some x_max))
           (\<lambda>(basis, _).
              bind_result (matvec n_basis basis coef)
                (\<lambda>bc. Inr (map (\<lambda>v. intercept + v) bc))))"

section \<open>spline\_fitting.py: fitting\<close>

text \<open>
  Element-wise operations on one-dimensional arrays broadcast an array of length one and
  raise ValueError on any other mismatch of lengths.
\<close>

definition broadcast2 :: "('a \<Rightarrow> 'b \<Rightarrow> 'c) \<Rightarrow> 'a list \<Rightarrow> 'b list \<Rightarrow> error + 'c list" where
  "broadcast2 f us vs =
     (if length us = length vs then Inr (map2 f us vs)
      else if length us = 1 then Inr (map (f (hd us)) vs)
      else if length vs = 1 then Inr (map (\<lambda>u. f u (hd vs)) us)
      else Inl ValueError)"

text \<open>
  \<^verbatim>\<open>weights / weights.sum()\<close>: no exception is raised when the sum is zero; each
  entry is then nan or infinite, written \<^verbatim>\<open>None\<close>.  A sum over entries one of which is
  \<^verbatim>\<open>None\<close> is nan (the weights of a zero total that are not nan have both signs), and
  every comparison with nan is false.
\<close>

definition normalize_weights :: "real list \<Rightarrow> real option list" where
  "normalize_weights w =
     (let s = sum_list w in map (\<lambda>v. if s = 0 then None else Some (v / s)) w)"

definition nan_sum :: "real option list \<Rightarrow> real option" where
  "nan_sum vs = (if None \<in> set vs then None else Some (sum_list (map the vs)))"

definition nan_times :: "real option \<Rightarrow> real option \<Rightarrow> real option" where
  "nan_times a b = (case a of None \<Rightarrow> None | Some u \<Rightarrow> map_option (\<lambda>v. u * v) b)"

definition weighted_sum :: "real option list \<Rightarrow> real option list \<Rightarrow> error + real option" where
  "weighted_sum weights vs = bind_result (broadcast2 nan_times weights vs) (\<lambda>ws. Inr (nan_sum ws))"

definition square :: "real \<Rightarrow> real" where
  "square v = v * v"

definition softplus :: "real \<Rightarrow> real" where
  "softplus t = ln (1 + exp t)"

definition np_diff :: "real list \<Rightarrow> real list" where
  "np_diff v = map2 (\<lambda>b a. b - a) (tl v) v"

text \<open>\<^verbatim>\<open>np.mean\<close> of an empty array is nan.\<close>

definition np_mean :: "real list \<Rightarrow> real option" where
  "np_mean vs = (if vs = [] then None else Some (sum_list vs / real (length vs)))"

text \<open>\<^verbatim>\<open>np.average(a, weights=w)\<close>: TypeError when the shapes differ,
  ZeroDivisionError when the weights sum to zero.\<close>

definition np_average :: "real list \<Rightarrow> real option list \<Rightarrow> error + real option" where
  "np_average a w =
     (if length a \<noteq> length w then Inl TypeError
      else let scl = nan_sum w in
        if scl = Some 0 then Inl ZeroDivisionError
        else Inr (case (nan_sum (map2 (\<lambda>u v. nan_times (Some u) v) a w), scl) of
                    (Some num, Some den) \<Rightarrow> Some (num / den)
                  | _ \<Rightarrow> None))"

text \<open>The intercept: solved from the anchor when there is one, else the last entry of the
  parameter vector.\<close>

definition fit_intercept ::
  "nat \<Rightarrow> (real \<times> real list list) option \<Rightarrow> real list \<Rightarrow> real list \<Rightarrow> error + real" where
  "fit_intercept n_basis anchor coef params =
     (case anchor of
        Some (y_anchor, basis_anchor) \<Rightarrow>
          bind_result (matvec n_basis basis_anchor coef) (\<lambda>v. Inr (y_anchor - v ! 0))
      | None \<Rightarrow> if n_basis < length params then Inr (params ! n_basis) else Inl IndexError)"

definition predict :: "nat \<Rightarrow> real list list \<Rightarrow> real list \<Rightarrow> real \<Rightarrow> error + real list" where
  "predict n_basis basis coef intercept =
     bind_result (matvec n_basis basis coef) (\<lambda>bc. Inr (map (\<lambda>v. intercept + v) bc))"

definition loss ::
  "nat \<Rightarrow> real list list \<Rightarrow> (real \<times> real list list) option \<Rightarrow> real list \<Rightarrow> real option list
     \<Rightarrow> real \<Rightarrow> real list \<Rightarrow> error + real option" where
  "loss n_basis basis anchor y weights smoothness_penalty params =
     (let raw_coef = take n_basis params;
          coef = map softplus raw_coef
      in bind_result (fit_intercept n_basis anchor coef params) (\<lambda>intercept.
         bind_result (predict n_basis basis coef intercept) (\<lambda>pred.
         bind_result (broadcast2 (\<lambda>u v. square (u - v)) y pred) (\<lambda>sq.
         bind_result (weighted_sum weights (map Some sq)) (\<lambda>mse.
           let smooth = smoothness_penalty * sum_list (map square (np_diff coef))
           in Inr (map_option (\<lambda>m. m + smooth) mse))))))"

text \<open>
  The optimiser (L-BFGS-B with random restarts) is outside the program: the result of
  restart \<^verbatim>\<open>trial\<close> is a parameter, and its \<^verbatim>\<open>fun\<close> is the objective at its
  \<^verbatim>\<open>x\<close>.  The loop keeps the first result whose objective is below the best so far,
  starting from infinity; a nan objective is never below.
\<close>

record OptimizeResult =
  res_x :: "real list"
  res_success :: bool
  res_nit :: nat

fun restart_loop ::
  "(real list \<Rightarrow> error + real option) \<Rightarrow> OptimizeResult list \<Rightarrow> (OptimizeResult \<times> real) option
     \<Rightarrow> error + (OptimizeResult \<times> real) option" where
  "restart_loop objective [] best = Inr best"
| "restart_loop objective (result # results) best =
     bind_result (objective (res_x result)) (\<lambda>fn.
       restart_loop objective results
         (case fn of
            None \<Rightarrow> best
          | Some f \<Rightarrow>
              (case best of
                 None \<Rightarrow> Some (result, f)
               | Some (best_result, best_loss) \<Rightarrow>
                   if f < best_loss then Some (result, f) else best)))"

record fit_info =
  fi_rmse :: "real option"
  fi_r2 :: "real option"
  fi_is_monotone :: bool
  fi_converged :: bool
  fi_n_iterations :: nat

definition r2_score :: "real option \<Rightarrow> real option \<Rightarrow> real option" where
  "r2_score ss_res ss_tot =
     (case ss_tot of
        None \<Rightarrow> Some 0
      | Some tot \<Rightarrow> if tot > 0 then map_option (\<lambda>res. 1 - res / tot) ss_res else Some 0)"

definition nan_sq_dev :: "real option \<Rightarrow> real \<Rightarrow> real option" where
  "nan_sq_dev avg v = map_option (\<lambda>m. square (v - m)) avg"

definition fit_monotone_spline ::
  "real list \<Rightarrow> real list \<Rightarrow> nat \<Rightarrow> real list option \<Rightarrow> nat \<Rightarrow> real \<Rightarrow> (real \<times> real) option
     \<Rightarrow> real option \<Rightarrow> real option \<Rightarrow> (nat \<Rightarrow> OptimizeResult)
     \<Rightarrow> error + (spline_params \<times> fit_info)" where
  "fit_monotone_spline x y n_basis weights degree smoothness_penalty anchor_point x_min x_max minimize =
     (let weights = normalize_weights (case weights of None \<Rightarrow> map (\<lambda>_. 1) x | Some w \<Rightarrow> w) in
      bind_result (resolve_bound x_min (np_min x)) (\<lambda>x_min.
      bind_result (resolve_bound x_max (np_max x)) (\<lambda>x_max.
      bind_result (create_ispline_basis x n_basis degree (Some x_min) (Some x_max)) (\<lambda>(basis, knots).
      bind_result
        (case anchor_point of
           None \<Rightarrow> Inr None
         | Some (x_anchor, y_anchor) \<Rightarrow>
             bind_result (create_ispline_basis [x_anchor] n_basis degree (Some x_min) (Some x_max))
               (\<lambda>(basis_anchor, _). Inr (Some (y_anchor, basis_anchor)))) (\<lambda>anchor.
      bind_result
        (restart_loop (loss n_basis basis anchor y weights smoothness_penalty)
           (map minimize [0..<3]) None) (\<lambda>best.
      case best of
        None \<Rightarrow> Inl AttributeError
      | Some (result, best_loss) \<Rightarrow>
          let coef = map softplus (take n_basis (res_x result)) in
          bind_result (fit_intercept n_basis anchor coef (res_x result)) (\<lambda>intercept.
          bind_result (predict n_basis basis coef intercept) (\<lambda>pred.
          bind_result (broadcast2 (\<lambda>u v. u - v) y pred) (\<lambda>residuals.
          bind_result (weighted_sum weights (map (\<lambda>r. Some (square r)) residuals)) (\<lambda>ss_res.
          bind_result (np_average y weights) (\<lambda>avg.
          bind_result (weighted_sum weights (map (nan_sq_dev avg) y)) (\<lambda>ss_tot.
            let r2 = r2_score ss_res ss_tot;
                rmse = map_option sqrt (np_mean (map square residuals));
                x_check = linspace x_min x_max 200
            in
            bind_result (create_ispline_basis x_check n_basis degree (Some x_min) (Some x_max))
              (\<lambda>(basis_check, _).
            bind_result (predict n_basis basis_check coef intercept) (\<lambda>y_check.
              let is_monotone = list_all (\<lambda>d. d \<ge> - (1 / 10 ^ 10)) (np_diff y_check) in
              Inr (\<lparr>p_coefficients = coef, p_intercept = intercept, p_n_basis = n_basis,
                     p_degree = Some degree, p_x_min = x_min, p_x_max = x_max,
                     p_knots = knots, p_globalIntercept = None\<rparr>,
                   \<lparr>fi_rmse = rmse, fi_r2 = r2, fi_is_monotone = is_monotone,
                     fi_converged = res_success result,
                     fi_n_iterations = res_nit result\<rparr>)))))))))))))))"

section \<open>calibrate\_schools.py: the inline evaluator\<close>

definition eval_bspline_basis ::
  "real list \<Rightarrow> nat \<Rightarrow> real list \<Rightarrow> nat \<Rightarrow> error + real list list" where
  "eval_bspline_basis knots degree pts n_b =
     bind_result
       (sequence_result (map (\<lambda>i. BSpline_init knots (unit_vector n_b i) degree) [0..<n_b]))
       (\<lambda>splines. Inr (map (\<lambda>xv. map (\<lambda>spline. BSpline_call spline xv) splines) pts))"

definition schools_create_ispline_basis ::
  "real list \<Rightarrow> nat \<Rightarrow> nat \<Rightarrow> real \<Rightarrow> real \<Rightarrow> error + real list list" where
  "schools_create_ispline_basis x n_basis degree x_min x_max =
     (let n_interior = int n_basis - int degree;
          n_interior = (if n_interior < 0 then 0 else nat n_interior);
          knots = replicate (degree + 1) x_min
                  @ butlast (tl (linspace x_min x_max (n_interior + 2)))
                  @ replicate (degree + 1) x_max
      in
      bind_result (eval_bspline_basis knots degree [x_max] (n_basis + 1)) (\<lambda>bspline_at_max.
        let bspline_max_rev = map tl bspline_at_max;
            ispline_at_max = map reverse_cumsum bspline_max_rev;
            norm_constants = map (\<lambda>v. if v = 0 then 1 else v) (ispline_at_max ! 0)
        in
        bind_result (eval_bspline_basis knots degree x (n_basis + 1)) (\<lambda>bspline_basis.
          let bspline_rev = map tl bspline_basis;
              ispline_basis = map reverse_cumsum bspline_rev
          in Inr (map (\<lambda>row. map2 (\<lambda>v c. v / c) row norm_constants) ispline_basis))))"

definition evaluate_spline :: "real \<Rightarrow> spline_params \<Rightarrow> error + real" where
  "evaluate_spline x params =
     (let x_arr = [x];
          coef = p_coefficients params;
          intercept = p_intercept params;
          n_basis = p_n_basis params;
          degree = get_degree params;
          x_min = p_x_min params;
          x_max = p_x_max params
      in bind_result (schools_create_ispline_basis x_arr n_basis degree x_min x_max) (\<lambda>basis.
         bind_result (matvec n_basis basis coef) (\<lambda>bc.
           Inr (map (\<lambda>v. intercept + v) bc ! 0))))"

section \<open>calibrate\_C.py: the two-factor calibration\<close>

record cell =
  gpaCenter :: real
  mcatCenter :: real
  acceptanceRate :: real
  weight :: real

definition GPA_ANCHOR :: real where "GPA_ANCHOR = 375 / 100"
definition MCAT_ANCHOR :: real where "MCAT_ANCHOR = 512"
definition GPA_N_BASIS :: nat where "GPA_N_BASIS = 6"
definition MCAT_N_BASIS :: nat where "MCAT_N_BASIS = 6"
definition GPA_MIN :: real where "GPA_MIN = 2"
definition GPA_MAX :: real where "GPA_MAX = 4"
definition MCAT_MIN :: real where "MCAT_MIN = 486"
definition MCAT_MAX :: real where "MCAT_MAX = 528"

text \<open>\<^verbatim>\<open>np.clip(a, a_min, a_max)\<close> is \<^verbatim>\<open>minimum(a_max, maximum(a, a_min))\<close>.\<close>

definition np_clip :: "real \<Rightarrow> real \<Rightarrow> real \<Rightarrow> real" where
  "np_clip a a_min a_max = min a_max (max a a_min)"

definition observed_rates :: "cell list \<Rightarrow> real list" where
  "observed_rates cells = map (\<lambda>c. np_clip (acceptanceRate c) (1 / 100) (99 / 100)) cells"

definition observed_logit :: "cell list \<Rightarrow> real list" where
  "observed_logit cells = map (\<lambda>p. ln (p / (1 - p))) (observed_rates cells)"

definition np_unique :: "real list \<Rightarrow> real list" where
  "np_unique vs = sort (remdups vs)"

text \<open>\<^verbatim>\<open>np.argmin\<close>: the first index of the minimum; ValueError on an empty array.\<close>

definition np_argmin :: "real list \<Rightarrow> error + nat" where
  "np_argmin vs =
     (if vs = [] then Inl ValueError
      else Inr (hd (filter (\<lambda>i. vs ! i = Min (set vs)) [0..<length vs])))"

definition index_of :: "real list \<Rightarrow> real \<Rightarrow> nat" where
  "index_of vs v = length (takeWhile (\<lambda>u. u \<noteq> v) vs)"

definition nth_result :: "real list \<Rightarrow> nat \<Rightarrow> error + real" where
  "nth_result vs i = (if i < length vs then Inr (vs ! i) else Inl IndexError)"

definition expit :: "real \<Rightarrow> real" where
  "expit v = 1 / (1 + exp (- v))"

text \<open>
  The discrete additive model is fitted by the optimiser; its result \<^verbatim>\<open>result\<close> is
  a parameter (\<^verbatim>\<open>stage1\<close>), as are the restarts of the two spline fits.  This is the
  function up to the two calls of \<^verbatim>\<open>fit_monotone_spline\<close>; with no cells the
  \<^verbatim>\<open>argmin\<close> over the empty level array raises ValueError.
\<close>

record discrete_fit =
  df_alpha_gpa :: "real list"
  df_alpha_mcat :: "real list"
  df_unique_gpas :: "real list"
  df_unique_mcats :: "real list"
  df_global_intercept :: real
  df_gpa_params :: spline_params
  df_gpa_info :: fit_info
  df_mcat_params :: spline_params
  df_mcat_info :: fit_info

definition fit_discrete_effects ::
  "cell list \<Rightarrow> OptimizeResult \<Rightarrow> (nat \<Rightarrow> OptimizeResult) \<Rightarrow> (nat \<Rightarrow> OptimizeResult)
     \<Rightarrow> error + discrete_fit" where
  "fit_discrete_effects cells stage1 minimize_gpa minimize_mcat =
     (let gpa_centers = map gpaCenter cells;
          mcat_centers = map mcatCenter cells;
          unique_gpas = np_unique gpa_centers;
          unique_mcats = np_unique mcat_centers;
          n_gpa = length unique_gpas;
          n_mcat = length unique_mcats;
          alpha_gpa = take n_gpa (res_x stage1);
          alpha_mcat = take n_mcat (drop n_gpa (res_x stage1))
      in
      bind_result (np_argmin (map (\<lambda>g. \<bar>g - GPA_ANCHOR\<bar>) unique_gpas)) (\<lambda>gpa_anchor_idx.
      bind_result (np_argmin (map (\<lambda>m. \<bar>m - MCAT_ANCHOR\<bar>) unique_mcats)) (\<lambda>mcat_anchor_idx.
      bind_result (nth_result alpha_gpa gpa_anchor_idx) (\<lambda>gpa_at_idx.
      bind_result (nth_result alpha_mcat mcat_anchor_idx) (\<lambda>mcat_at_idx.
        let global_intercept = gpa_at_idx + mcat_at_idx;
            alpha_gpa_centered = map (\<lambda>a. a - gpa_at_idx) alpha_gpa;
            alpha_mcat_centered = map (\<lambda>a. a - mcat_at_idx) alpha_mcat
        in
        bind_result
          (fit_monotone_spline unique_gpas alpha_gpa_centered GPA_N_BASIS None 3 (1 / 1000) None
             (Some GPA_MIN) (Some GPA_MAX) minimize_gpa) (\<lambda>(gpa_params, gpa_info).
        bind_result
          (fit_monotone_spline unique_mcats alpha_mcat_centered MCAT_N_BASIS None 3 (1 / 1000) None
             (Some MCAT_MIN) (Some MCAT_MAX) minimize_mcat) (\<lambda>(mcat_params, mcat_info).
          Inr \<lparr>df_alpha_gpa = alpha_gpa, df_alpha_mcat = alpha_mcat,
               df_unique_gpas = unique_gpas, df_unique_mcats = unique_mcats,
               df_global_intercept = global_intercept,
               df_gpa_params = gpa_params, df_gpa_info = gpa_info,
               df_mcat_params = mcat_params, df_mcat_info = mcat_info\<rparr>)))))))"

text \<open>Lines 302 to 306: each intercept is reduced by the curve's own value at its anchor.\<close>

definition reanchor :: "real \<Rightarrow> spline_params \<Rightarrow> error + spline_params" where
  "reanchor anchor params =
     bind_result (evaluate_monotone_spline [anchor] params) (\<lambda>v.
       let at_anchor = v ! 0
       in Inr (params\<lparr>p_intercept := p_intercept params - at_anchor\<rparr>))"

record calibration_info =
  ci_rmse :: "real option"
  ci_r2 :: "real option"
  ci_gpa_monotone :: bool
  ci_mcat_monotone :: bool
  ci_converged :: bool
  ci_n_iterations :: nat
  ci_anchor_gpa :: real
  ci_anchor_mcat :: real
  ci_gpa_spline_r2 :: "real option"
  ci_mcat_spline_r2 :: "real option"
  ci_global_intercept :: real

text \<open>
  The statistics of the discrete fit use the cells' raw weights: \<^verbatim>\<open>np.average\<close>
  raises ZeroDivisionError when they sum to zero, the root of a negative sum is nan, and so is
  \<^verbatim>\<open>1 - ss_res / ss_tot\<close> (or infinite) when \<^verbatim>\<open>ss_tot\<close> is zero.
\<close>

definition calibrate_splines ::
  "cell list \<Rightarrow> OptimizeResult \<Rightarrow> (nat \<Rightarrow> OptimizeResult) \<Rightarrow> (nat \<Rightarrow> OptimizeResult)
     \<Rightarrow> error + (spline_params \<times> spline_params \<times> calibration_info)" where
  "calibrate_splines cells stage1 minimize_gpa minimize_mcat =
     bind_result (fit_discrete_effects cells stage1 minimize_gpa minimize_mcat) (\<lambda>d.
     bind_result (reanchor GPA_ANCHOR (df_gpa_params d)) (\<lambda>gpa_params.
     bind_result (reanchor MCAT_ANCHOR (df_mcat_params d)) (\<lambda>mcat_params.
       let gpa_params = gpa_params\<lparr>p_globalIntercept := Some (df_global_intercept d)\<rparr>;
           weights = map weight cells;
           n_gpa = length (df_unique_gpas d);
           n_mcat = length (df_unique_mcats d);
           X_gpa = map (\<lambda>c. unit_vector n_gpa (index_of (df_unique_gpas d) (gpaCenter c))) cells;
           X_mcat = map (\<lambda>c. unit_vector n_mcat (index_of (df_unique_mcats d) (mcatCenter c))) cells
       in
       bind_result (matvec n_gpa X_gpa (df_alpha_gpa d)) (\<lambda>pred_gpa.
       bind_result (matvec n_mcat X_mcat (df_alpha_mcat d)) (\<lambda>pred_mcat.
         let pred_logit = map2 (\<lambda>u v. u + v) pred_gpa pred_mcat;
             pred_rates = map expit pred_logit;
             residuals = map2 (\<lambda>u v. u - v) (observed_rates cells) pred_rates;
             ss_res = sum_list (map2 (\<lambda>w r. w * square r) weights residuals);
             rmse = (if ss_res < 0 then None else Some (sqrt ss_res))
         in
         if sum_list weights = 0 then Inl ZeroDivisionError
         else
           let avg = sum_list (map2 (\<lambda>u w. u * w) (observed_rates cells) weights) / sum_list weights;
               ss_tot = sum_list (map2 (\<lambda>w u. w * square (u - avg)) weights (observed_rates cells));
               r2 = (if ss_tot = 0 then None else Some (1 - ss_res / ss_tot))
           in
           bind_result (evaluate_monotone_spline (linspace GPA_MIN GPA_MAX 50) gpa_params)
             (\<lambda>gpa_C_test.
           bind_result (evaluate_monotone_spline (linspace MCAT_MIN MCAT_MAX 50) mcat_params)
             (\<lambda>mcat_C_test.
             let gpa_monotone = list_all (\<lambda>d. d \<ge> - (1 / 10 ^ 10)) (np_diff gpa_C_test);
                 mcat_monotone = list_all (\<lambda>d. d \<ge> - (1 / 10 ^ 10)) (np_diff mcat_C_test)
             in
             Inr (gpa_params, mcat_params,
                  \<lparr>ci_rmse = rmse, ci_r2 = r2,
                    ci_gpa_monotone = gpa_monotone, ci_mcat_monotone = mcat_monotone,
                    ci_converged = res_success stage1, ci_n_iterations = res_nit stage1,
                    ci_anchor_gpa = GPA_ANCHOR, ci_anchor_mcat = MCAT_ANCHOR,
                    ci_gpa_spline_r2 = fi_r2 (df_gpa_info d),
                    ci_mcat_spline_r2 = fi_r2 (df_mcat_info d),
                    ci_global_intercept = df_global_intercept d\<rparr>))))))))"

section \<open>Auxiliary definitions\<close>

text \<open>
  Definitions used only in the proofs: the knots as a function of the index, one row of the
  B-spline matrix, de Boor's recurrence on the coefficients (the dual of the recurrence on
  the basis values), the points an interval's recurrence weights are convex for, the value
  of one I-spline column as the proofs compute it, and the fitted curve as a function.
\<close>

definition knot :: "real \<Rightarrow> real \<Rightarrow> nat \<Rightarrow> nat \<Rightarrow> nat \<Rightarrow> real" where
  "knot a b k m i =
     (if i \<le> k then a else if i \<le> k + m then a + real (i - k) * ((b - a) / real (m + 1)) else b)"

definition bspline_row :: "real list \<Rightarrow> nat \<Rightarrow> nat \<Rightarrow> real \<Rightarrow> real list" where
  "bspline_row t k n xv =
     map (\<lambda>i. BSpline_call \<lparr>bs_t = t, bs_c = unit_vector n i, bs_k = k\<rparr> xv) [0..<n]"

fun deBoor_coef :: "real list \<Rightarrow> (nat \<Rightarrow> real) \<Rightarrow> nat \<Rightarrow> real \<Rightarrow> nat \<Rightarrow> nat \<Rightarrow> real" where
  "deBoor_coef t c k x 0 i = c i"
| "deBoor_coef t c k x (Suc r) i =
     (let al = (x - t ! i) / (t ! (i + k - r) - t ! i)
      in (1 - al) * deBoor_coef t c k x r (i - 1) + al * deBoor_coef t c k x r i)"

definition in_span :: "real list \<Rightarrow> nat \<Rightarrow> nat \<Rightarrow> real \<Rightarrow> bool" where
  "in_span t k ell x \<longleftrightarrow> (\<forall>i\<le>ell. t ! i \<le> x) \<and> (\<forall>i. ell < i \<and> i \<le> ell + k \<longrightarrow> x \<le> t ! i)"

definition ispline_value :: "real \<Rightarrow> real \<Rightarrow> nat \<Rightarrow> nat \<Rightarrow> nat \<Rightarrow> real \<Rightarrow> real" where
  "ispline_value a b k nb j xv =
     deBoor_coef (knot_sequence a b k (nb - k)) (\<lambda>i. if j < i then 1 else 0) k xv k
       (find_interval (knot_sequence a b k (nb - k)) k xv)"

definition curve_value :: "spline_params \<Rightarrow> real \<Rightarrow> real" where
  "curve_value p xv =
     p_intercept p
     + (\<Sum>j<p_n_basis p.
          ispline_value (p_x_min p) (p_x_max p) (get_degree p) (p_n_basis p) j xv
          * p_coefficients p ! j)"

definition valid_params :: "spline_params \<Rightarrow> bool" where
  "valid_params p \<longleftrightarrow>
     p_x_min p < p_x_max p \<and> get_degree p \<le> p_n_basis p
     \<and> length (p_coefficients p) = p_n_basis p"

definition ispline_row_at :: "real \<Rightarrow> real \<Rightarrow> nat \<Rightarrow> nat \<Rightarrow> real \<Rightarrow> real list" where
  "ispline_row_at lo hi k nb xv = map (\<lambda>j. ispline_value lo hi k nb j xv) [0..<nb]"

text \<open>The optimiser outcome used in the examples: every restart returns the zero vector.\<close>

definition example_minimize :: "nat \<Rightarrow> OptimizeResult" where
  "example_minimize trial = \<lparr>res_x = replicate 7 0, res_success = True, res_nit = 1\<rparr>"

text \<open>The optimiser outcome of the weighted example: equal coefficients, intercept 1/4.\<close>

definition example_minimizer :: "nat \<Rightarrow> OptimizeResult" where
  "example_minimizer trial = \<lparr>res_x = replicate 6 0 @ [1 / 4], res_success = True, res_nit = 1\<rparr>"

text \<open>
  The weighted root-mean-square error in the specification's words: the square root of the
  weighted mean of the squared residuals, with the weights normalised to sum to one.
\<close>

definition weighted_rmse :: "real list \<Rightarrow> real list \<Rightarrow> real" where
  "weighted_rmse weights residuals =
     sqrt (sum_list (map2 (\<lambda>w r. w / sum_list weights * (r * r)) weights residuals))"

text \<open>Two cells and an outcome of the discrete fit (two levels per factor), for the
  examples of the calibration.\<close>

definition example_cells :: "cell list" where
  "example_cells =
     [\<lparr>gpaCenter = 3, mcatCenter = 500, acceptanceRate = 1 / 5, weight = 10\<rparr>,
      \<lparr>gpaCenter = 15 / 4, mcatCenter = 512, acceptanceRate = 1 / 2, weight = 20\<rparr>]"

definition example_stage1 :: OptimizeResult where
  "example_stage1 = \<lparr>res_x = [- 1, 0, - (1 / 2), 0], res_success = True, res_nit = 1\<rparr>"

section \<open>The knot sequence\<close>

text \<open>
  The knots are sorted; after the first \<open>k + 1\<close> and before the last \<open>k + 1\<close> they
  increase strictly when \<open>x_min < x_max\<close>.
\<close>

lemma bind_result_Inr [simp]: "bind_result (Inr v) f = f v"
  by (simp add: bind_result_def)

lemma bind_result_Inl [simp]: "bind_result (Inl e) f = Inl e"
  by (simp add: bind_result_def)

lemma bind_result_eq_Inr:
  "bind_result m f = Inr r \<longleftrightarrow> (\<exists>v. m = Inr v \<and> f v = Inr r)"
  by (cases m) simp_all

lemma length_linspace [simp]: "length (linspace a b num) = num"
  by (simp add: linspace_def)

lemma nth_linspace: "i < num \<Longrightarrow> linspace a b num ! i = real i * ((b - a) / real (num - 1)) + a"
  by (simp add: linspace_def)

lemma length_knot_sequence [simp]: "length (knot_sequence a b k m) = 2 * k + 2 + m"
  by (simp add: knot_sequence_def)

lemma nth_knot_sequence:
  assumes "i < 2 * k + 2 + m"
  shows "knot_sequence a b k m ! i = knot a b k m i"
proof -
  let ?mid = "butlast (tl (linspace a b (m + 2)))"
  have lm: "length ?mid = m" by simp
  have mid: "?mid ! j = a + real (Suc j) * ((b - a) / real (m + 1))" if "j < m" for j
  proof -
    have "?mid ! j = tl (linspace a b (m + 2)) ! j"
      using that by (simp add: nth_butlast)
    also have "\<dots> = linspace a b (m + 2) ! Suc j"
      using that by (simp add: nth_tl)
    also have "\<dots> = real (Suc j) * ((b - a) / real (m + 1)) + a"
      using that by (simp add: nth_linspace)
    finally show ?thesis by simp
  qed
  have ks: "knot_sequence a b k m = replicate (Suc k) a @ ?mid @ replicate (Suc k) b"
    by (simp add: knot_sequence_def)
  consider "i \<le> k" | "k < i" "i \<le> k + m" | "k + m < i" by linarith
  then show ?thesis
  proof cases
    case 1
    then show ?thesis unfolding ks by (simp add: knot_def nth_append del: replicate_Suc)
  next
    case 2
    then have lt: "i - Suc k < m" by linarith
    have "knot_sequence a b k m ! i = ?mid ! (i - (k + 1))"
      unfolding ks using 2 lt by (simp add: nth_append del: replicate_Suc)
    also have "\<dots> = a + real (Suc (i - (k + 1))) * ((b - a) / real (m + 1))"
      using 2 by (intro mid) simp
    also have "Suc (i - (k + 1)) = i - k" using 2 by simp
    finally show ?thesis using 2 by (simp add: knot_def)
  next
    case 3
    then have ge: "\<not> i - Suc k < m" "\<not> i < Suc k" "i - Suc k - m < Suc k"
      using assms by linarith+
    show ?thesis using 3 ge unfolding ks
      by (simp add: knot_def nth_append del: replicate_Suc)
  qed
qed

lemma knot_ge_lo: "a \<le> b \<Longrightarrow> a \<le> knot a b k m i"
  by (simp add: knot_def)

lemma knot_le_hi:
  assumes "a \<le> b" shows "knot a b k m i \<le> b"
proof (cases "k < i \<and> i \<le> k + m")
  case True
  then have "real (i - k) \<le> real (m + 1)" by simp
  then have "real (i - k) * ((b - a) / real (m + 1)) \<le> real (m + 1) * ((b - a) / real (m + 1))"
    using assms by (intro mult_right_mono) simp_all
  then show ?thesis using True by (simp add: knot_def)
next
  case False
  then show ?thesis using assms by (auto simp: knot_def)
qed

lemma knot_interior:
  "k \<le> i \<Longrightarrow> i \<le> k + m + 1 \<Longrightarrow> knot a b k m i = a + real (i - k) * ((b - a) / real (m + 1))"
  by (auto simp: knot_def not_le le_Suc_eq)

lemma knot_mono:
  assumes "a \<le> b" "i \<le> j" shows "knot a b k m i \<le> knot a b k m j"
proof -
  consider "i \<le> k" | "k + m < j" | "k < i" "j \<le> k + m" using assms(2) by linarith
  then show ?thesis
  proof cases
    case 1
    then show ?thesis using knot_ge_lo[OF assms(1), of k m j] by (simp add: knot_def)
  next
    case 2
    then show ?thesis using knot_le_hi[OF assms(1), of k m i] by (simp add: knot_def)
  next
    case 3
    have "real (i - k) \<le> real (j - k)" using assms(2) by simp
    then have "real (i - k) * ((b - a) / real (m + 1)) \<le> real (j - k) * ((b - a) / real (m + 1))"
      using assms(1) by (intro mult_right_mono) simp_all
    then show ?thesis using 3 assms(2) by (simp add: knot_def)
  qed
qed

lemma knot_strict_mono:
  assumes "a < b" "k \<le> i" "i < j" "j \<le> k + m + 1"
  shows "knot a b k m i < knot a b k m j"
proof -
  have "real (i - k) < real (j - k)" using assms by simp
  moreover have "0 < (b - a) / real (m + 1)" using assms(1) by simp
  ultimately have "real (i - k) * ((b - a) / real (m + 1)) < real (j - k) * ((b - a) / real (m + 1))"
    by (rule mult_strict_right_mono)
  then show ?thesis using assms by (simp add: knot_interior)
qed

lemma sorted_knot_sequence:
  assumes "a \<le> b" shows "sorted (knot_sequence a b k m)"
  unfolding sorted_iff_nth_mono
  using assms by (auto simp: nth_knot_sequence intro: knot_mono)

lemma sorted_knot_sequence_iff: "sorted (knot_sequence a b k m) \<longleftrightarrow> a \<le> b"
proof
  assume s: "sorted (knot_sequence a b k m)"
  have "knot_sequence a b k m ! 0 \<le> knot_sequence a b k m ! (2 * k + 1 + m)"
    using s by (intro sorted_nth_mono) simp_all
  then show "a \<le> b" by (simp add: nth_knot_sequence knot_def)
qed (rule sorted_knot_sequence)

section \<open>The B-spline constructor on the knot sequence\<close>

text \<open>
  On the knot sequence the constructor succeeds exactly when \<open>x_min < x_max\<close> and the
  coefficient vector is long enough.
\<close>

lemma knot_window:
  "take (m + 2) (drop k (knot_sequence a b k m)) = map (\<lambda>j. knot a b k m (k + j)) [0..<m + 2]"
  by (rule nth_equalityI) (simp_all add: nth_knot_sequence del: upt_Suc)

lemma BSpline_init_knot_sequence:
  "BSpline_init (knot_sequence a b k m) c k =
     (if a < b \<and> k + 1 + m \<le> length c
      then Inr \<lparr>bs_t = knot_sequence a b k m, bs_c = c, bs_k = k\<rparr>
      else Inl ValueError)"
proof -
  let ?K = "knot_sequence a b k m"
  let ?w = "take (m + 2) (drop k ?K)"
  have n: "int (length ?K) - int k - 1 = int (k + 1 + m)" by simp
  have w: "nat (int (k + 1 + m)) + 1 - k = m + 2" by simp
  have uniq: "length (remdups ?w) < 2 \<longleftrightarrow> \<not> a < b" if "a \<le> b"
  proof (cases "a = b")
    case True
    have "set ?w = {a}"
      unfolding knot_window using True by (auto simp: knot_def)
    then have "card (set ?w) = 1" by simp
    then show ?thesis using True by (simp add: length_remdups_card_conv)
  next
    case False
    have "knot a b k m (k + 0) \<in> set ?w" "knot a b k m (k + (m + 1)) \<in> set ?w"
      unfolding knot_window set_map set_upt by (rule imageI, simp)+
    then have "{a, b} \<subseteq> set ?w" by (simp add: knot_def)
    then have "card {a, b} \<le> card (set ?w)" by (intro card_mono) simp_all
    then have "2 \<le> length (remdups ?w)" using False by (simp add: length_remdups_card_conv)
    then show ?thesis using False that by simp
  qed
  show ?thesis
  proof (cases "a \<le> b")
    case True
    then show ?thesis
      unfolding BSpline_init_def Let_def n w
      using uniq[OF True] by (auto simp: sorted_knot_sequence_iff)
  next
    case False
    then show ?thesis
      unfolding BSpline_init_def Let_def n w
      by (auto simp: sorted_knot_sequence_iff)
  qed
qed

lemma sequence_result_Inr: "sequence_result (map (\<lambda>i. Inr (f i)) is) = Inr (map f is)"
  by (induction "is") simp_all

lemma sequence_result_Inl: "is \<noteq> [] \<Longrightarrow> sequence_result (map (\<lambda>i. Inl e) is) = Inl e"
  by (cases "is") simp_all

lemma length_unit_vector [simp]: "length (unit_vector n i) = n"
  by (simp add: unit_vector_def)

lemma nth_unit_vector: "j < n \<Longrightarrow> unit_vector n i ! j = (if j = i then 1 else 0)"
  by (simp add: unit_vector_def nth_list_update)

lemma n_interior_knots_Suc: "n_interior_knots (Suc n) k = n - k"
  by (auto simp: n_interior_knots_def Let_def)

lemma create_bspline_basis_Suc:
  "create_bspline_basis x (Suc n) k (Some a) (Some b) =
     (if a < b \<and> k \<le> n
      then Inr (map (bspline_row (knot_sequence a b k (n - k)) k (Suc n)) x,
                knot_sequence a b k (n - k))
      else Inl ValueError)"
proof (cases "a < b \<and> k \<le> n")
  case True
  then show ?thesis
    unfolding create_bspline_basis_def resolve_bound_def n_interior_knots_Suc Let_def
    by (simp add: BSpline_init_knot_sequence sequence_result_Inr bspline_row_def comp_def
          del: upt_Suc)
next
  case False
  have ne: "[0..<Suc n] \<noteq> []" by simp
  have "sequence_result
          (map (\<lambda>i. BSpline_init (knot_sequence a b k (n - k)) (unit_vector (Suc n) i) k)
             [0..<Suc n]) = Inl ValueError"
    using False sequence_result_Inl[OF ne, of ValueError]
    by (auto simp: BSpline_init_knot_sequence simp del: upt_Suc)
  with False show ?thesis
    unfolding create_bspline_basis_def resolve_bound_def n_interior_knots_Suc Let_def
    by simp
qed

section \<open>The interval search\<close>

lemma find_interval_loop_props:
  "l \<le> n \<Longrightarrow>
     l \<le> find_interval_loop t n x l \<and> find_interval_loop t n x l \<le> n \<and>
     (\<forall>i. l \<le> i \<and> i < find_interval_loop t n x l \<longrightarrow> t ! i \<le> x) \<and>
     (find_interval_loop t n x l < n \<longrightarrow> x < t ! find_interval_loop t n x l)"
proof (induction t n x l rule: find_interval_loop.induct)
  case (1 t n xval l)
  show ?case
  proof (cases "l < n \<and> t ! l \<le> xval")
    case True
    then have ih: "Suc l \<le> find_interval_loop t n xval (Suc l) \<and>
        find_interval_loop t n xval (Suc l) \<le> n \<and>
        (\<forall>i. Suc l \<le> i \<and> i < find_interval_loop t n xval (Suc l) \<longrightarrow> t ! i \<le> xval) \<and>
        (find_interval_loop t n xval (Suc l) < n \<longrightarrow> xval < t ! find_interval_loop t n xval (Suc l))"
      using "1.IH" by simp
    have eq: "find_interval_loop t n xval l = find_interval_loop t n xval (Suc l)"
      using True by (subst find_interval_loop.simps) simp
    have "t ! i \<le> xval" if "l \<le> i" "i < find_interval_loop t n xval (Suc l)" for i
    proof (cases "i = l")
      case True
      then show ?thesis using \<open>l < n \<and> t ! l \<le> xval\<close> by simp
    next
      case False
      then show ?thesis using that ih by auto
    qed
    then show ?thesis unfolding eq using ih by auto
  next
    case False
    then have eq: "find_interval_loop t n xval l = l"
      by (subst find_interval_loop.simps) auto
    show ?thesis unfolding eq using False "1.prems" by auto
  qed
qed

lemma find_interval_knots:
  fixes a b x :: real and k m :: nat
  assumes "a < b"
  defines "K \<equiv> knot_sequence a b k m"
  defines "ell \<equiv> find_interval K k x"
  shows "k \<le> ell" "ell \<le> k + m"
    and "\<forall>i. k < i \<and> i \<le> ell \<longrightarrow> K ! i \<le> x"
    and "ell < k + m \<longrightarrow> x < K ! Suc ell"
proof -
  let ?n = "length K - k - 1"
  let ?r = "find_interval_loop K ?n x (Suc k)"
  have n: "?n = k + 1 + m" by (simp add: K_def)
  have p: "Suc k \<le> ?r \<and> ?r \<le> ?n \<and> (\<forall>i. Suc k \<le> i \<and> i < ?r \<longrightarrow> K ! i \<le> x) \<and>
      (?r < ?n \<longrightarrow> x < K ! ?r)"
    by (rule find_interval_loop_props) (simp add: K_def)
  have e: "ell = ?r - 1" by (simp add: ell_def find_interval_def)
  show "k \<le> ell" using p e by linarith
  show "ell \<le> k + m" using p e n by linarith
  show "\<forall>i. k < i \<and> i \<le> ell \<longrightarrow> K ! i \<le> x" using p e by auto
  have "Suc ell = ?r" using p e by linarith
  then show "ell < k + m \<longrightarrow> x < K ! Suc ell" using p n by auto
qed

lemma in_span_knots:
  assumes "a < b" "a \<le> x" "x \<le> b"
  shows "in_span (knot_sequence a b k m) k (find_interval (knot_sequence a b k m) k x) x"
proof -
  let ?K = "knot_sequence a b k m"
  let ?l = "find_interval ?K k x"
  note fi = find_interval_knots[OF assms(1), of k m x]
  have lo: "?K ! i \<le> x" if "i \<le> ?l" for i
  proof (cases "i \<le> k")
    case True
    then show ?thesis using assms by (simp add: nth_knot_sequence knot_def)
  next
    case False
    then show ?thesis using fi(3) that by auto
  qed
  have hi: "x \<le> ?K ! i" if "?l < i" "i \<le> ?l + k" for i
  proof (cases "?l < k + m")
    case True
    then have "x < ?K ! Suc ?l" using fi(4) by simp
    also have "\<dots> \<le> ?K ! i"
      using that fi(2) assms(1)
      by (simp add: nth_knot_sequence knot_mono)
    finally show ?thesis by simp
  next
    case False
    then have "k + m < i" using that by simp
    then have "?K ! i = b" using that fi(2) by (simp add: nth_knot_sequence knot_def)
    then show ?thesis using assms by simp
  qed
  show ?thesis unfolding in_span_def using lo hi by auto
qed

lemma find_interval_mono:
  assumes "a < b" "x \<le> y"
  shows "find_interval (knot_sequence a b k m) k x \<le> find_interval (knot_sequence a b k m) k y"
proof (rule ccontr)
  let ?K = "knot_sequence a b k m"
  assume "\<not> ?thesis"
  then have lt: "find_interval ?K k y < find_interval ?K k x" by simp
  note fx = find_interval_knots[OF assms(1), of k m x]
  note fy = find_interval_knots[OF assms(1), of k m y]
  have "find_interval ?K k y < k + m" using lt fx(2) by simp
  then have "y < ?K ! Suc (find_interval ?K k y)" using fy(4) by simp
  moreover have "?K ! Suc (find_interval ?K k y) \<le> x"
    using fx(3) lt fy(1) by auto
  ultimately show False using assms(2) by simp
qed

section \<open>De Boor duality\<close>

text \<open>
  The dot product of the basis values with a coefficient vector equals the value de Boor's
  recurrence on the coefficients reaches.
\<close>

lemma deBoor_D_0 [simp]: "deBoor_D t x 0 ell = [1]"
  by (simp add: deBoor_D_def)

lemma deBoor_D_Suc:
  "deBoor_D t x (Suc j) ell = deBoor_level t x ell (Suc j) (deBoor_D t x j ell)"
  by (simp add: deBoor_D_def)

lemma length_deBoor_level [simp]: "length (deBoor_level t x ell j hh) = Suc j"
  by (simp add: deBoor_level_def)

lemma length_deBoor_D [simp]: "length (deBoor_D t x j ell) = Suc j"
  by (cases j) (simp_all add: deBoor_D_Suc)

lemma nth_deBoor_level:
  "a \<le> j \<Longrightarrow> deBoor_level t x ell j hh ! a =
     (if 1 \<le> a then deBoor_w t ell j hh a * (x - t ! (ell + a - j)) else 0)
     + (if a < j then deBoor_w t ell j hh (a + 1) * (t ! (ell + a + 1) - x) else 0)"
  unfolding deBoor_level_def by (simp del: upt_Suc)

lemma duality_term:
  fixes h s u x e0 e1 :: real
  assumes "u \<noteq> s"
  shows "h / (u - s) * (x - s) * e1 + h / (u - s) * (u - x) * e0 =
         h * ((1 - (x - s) / (u - s)) * e0 + (x - s) / (u - s) * e1)"
proof -
  have "u - s \<noteq> 0" using assms by simp
  then show ?thesis by (simp add: field_simps)
qed

lemma deBoor_duality_step:
  assumes sep: "\<And>i i'. i \<le> q + k \<Longrightarrow> q + k < i' \<Longrightarrow> i' \<le> q + k + k \<Longrightarrow> t ! i \<noteq> t ! i'"
    and k: "Suc j + r = k"
  shows "(\<Sum>a\<le>Suc j. deBoor_D t x (Suc j) (q + k) ! a * deBoor_coef t c k x r (q + r + a)) =
         (\<Sum>a\<le>j. deBoor_D t x j (q + k) ! a * deBoor_coef t c k x (Suc r) (q + Suc r + a))"
proof -
  let ?l = "q + k"
  let ?H = "deBoor_D t x j ?l"
  let ?E = "\<lambda>a. deBoor_coef t c k x r (q + r + a)"
  let ?W = "\<lambda>n. deBoor_w t ?l (Suc j) ?H n"
  let ?s = "\<lambda>a. t ! (q + Suc r + a)"
  let ?u = "\<lambda>a. t ! (?l + a + 1)"
  have ne: "?u a \<noteq> ?s a" if "a \<le> j" for a
  proof -
    have "?s a \<noteq> ?u a" using that k by (intro sep) simp_all
    then show ?thesis by simp
  qed
  have idx: "?l + Suc a - Suc j = q + Suc r + a" if "a \<le> j" for a
    using that k by simp
  have W: "?W (Suc a) = ?H ! a / (?u a - ?s a)" if "a \<le> j" for a
    using ne[OF that] idx[OF that] by (simp add: deBoor_w_def Let_def)
  have nth: "deBoor_D t x (Suc j) ?l ! a =
      (if 1 \<le> a then ?W a * (x - t ! (?l + a - Suc j)) else 0)
      + (if a < Suc j then ?W (a + 1) * (t ! (?l + a + 1) - x) else 0)" if "a \<le> Suc j" for a
    unfolding deBoor_D_Suc using that by (rule nth_deBoor_level)
  have "(\<Sum>a\<le>Suc j. deBoor_D t x (Suc j) ?l ! a * ?E a) =
        (\<Sum>a\<le>Suc j. (if 1 \<le> a then ?W a * (x - t ! (?l + a - Suc j)) else 0) * ?E a)
        + (\<Sum>a\<le>Suc j. (if a < Suc j then ?W (a + 1) * (t ! (?l + a + 1) - x) else 0) * ?E a)"
    by (simp add: nth distrib_right sum.distrib)
  also have "(\<Sum>a\<le>Suc j. (if 1 \<le> a then ?W a * (x - t ! (?l + a - Suc j)) else 0) * ?E a) =
        (\<Sum>a\<le>j. ?W (Suc a) * (x - t ! (?l + Suc a - Suc j)) * ?E (Suc a))"
    by (subst sum.atMost_Suc_shift) simp
  also have "\<dots> = (\<Sum>a\<le>j. ?H ! a / (?u a - ?s a) * (x - ?s a) * ?E (Suc a))"
  proof (rule sum.cong)
    fix a assume "a \<in> {..j}"
    then have a: "a \<le> j" by simp
    show "?W (Suc a) * (x - t ! (?l + Suc a - Suc j)) * ?E (Suc a) =
          ?H ! a / (?u a - ?s a) * (x - ?s a) * ?E (Suc a)"
      unfolding W[OF a] idx[OF a] by (rule refl)
  qed (rule refl)
  also have "(\<Sum>a\<le>Suc j. (if a < Suc j then ?W (a + 1) * (t ! (?l + a + 1) - x) else 0) * ?E a) =
        (\<Sum>a\<le>j. ?W (Suc a) * (?u a - x) * ?E a)"
    by (subst sum.atMost_Suc) (simp del: deBoor_coef.simps)
  also have "\<dots> = (\<Sum>a\<le>j. ?H ! a / (?u a - ?s a) * (?u a - x) * ?E a)"
  proof (rule sum.cong)
    fix a assume "a \<in> {..j}"
    then have a: "a \<le> j" by simp
    show "?W (Suc a) * (?u a - x) * ?E a = ?H ! a / (?u a - ?s a) * (?u a - x) * ?E a"
      unfolding W[OF a] by (rule refl)
  qed (rule refl)
  also have "(\<Sum>a\<le>j. ?H ! a / (?u a - ?s a) * (x - ?s a) * ?E (Suc a))
        + (\<Sum>a\<le>j. ?H ! a / (?u a - ?s a) * (?u a - x) * ?E a) =
        (\<Sum>a\<le>j. ?H ! a * deBoor_coef t c k x (Suc r) (q + Suc r + a))"
  proof -
    have "?H ! a / (?u a - ?s a) * (x - ?s a) * ?E (Suc a)
          + ?H ! a / (?u a - ?s a) * (?u a - x) * ?E a =
          ?H ! a * deBoor_coef t c k x (Suc r) (q + Suc r + a)" if "a \<le> j" for a
    proof -
      have i1: "q + Suc r + a + k - r = ?l + a + 1" by simp
      have i2: "q + Suc r + a - 1 = q + r + a" by simp
      have i3: "q + r + Suc a = q + Suc r + a" by simp
      show ?thesis
        unfolding deBoor_coef.simps(2) Let_def i1 i2 i3
        by (rule duality_term) (rule ne[OF that])
    qed
    then show ?thesis by (simp add: sum.distrib [symmetric] del: deBoor_coef.simps)
  qed
  finally show ?thesis .
qed

lemma deBoor_duality:
  assumes sep: "\<And>i i'. i \<le> q + k \<Longrightarrow> q + k < i' \<Longrightarrow> i' \<le> q + k + k \<Longrightarrow> t ! i \<noteq> t ! i'"
  shows "j + r = k \<Longrightarrow>
     (\<Sum>a\<le>j. deBoor_D t x j (q + k) ! a * deBoor_coef t c k x r (q + r + a)) =
     deBoor_coef t c k x k (q + k)"
proof (induction j arbitrary: r)
  case 0
  then show ?case by simp
next
  case (Suc j)
  have "(\<Sum>a\<le>Suc j. deBoor_D t x (Suc j) (q + k) ! a * deBoor_coef t c k x r (q + r + a)) =
        (\<Sum>a\<le>j. deBoor_D t x j (q + k) ! a * deBoor_coef t c k x (Suc r) (q + Suc r + a))"
    using sep Suc.prems by (rule deBoor_duality_step)
  also have "\<dots> = deBoor_coef t c k x k (q + k)"
    using Suc.prems by (intro Suc.IH) simp
  finally show ?case .
qed

section \<open>Monotone coefficients give monotone values\<close>

text \<open>
  While the coefficients are non-decreasing in the index, every level of the coefficient
  recurrence is non-decreasing in the index and in the point.
\<close>

lemma ratio_bounds:
  fixes u d :: real
  assumes "0 \<le> u" "u \<le> d"
  shows "0 \<le> u / d \<and> u / d \<le> 1"
proof (cases "d = 0")
  case True
  then show ?thesis by simp
next
  case False
  then have "0 < d" using assms by simp
  then show ?thesis using assms by simp
qed

lemma alpha_bounds:
  assumes "in_span t k ell x" "i \<le> ell" "ell + Suc r \<le> i + k"
  shows "0 \<le> (x - t ! i) / (t ! (i + k - r) - t ! i) \<and> (x - t ! i) / (t ! (i + k - r) - t ! i) \<le> 1"
proof -
  have lo: "t ! i \<le> x" using assms(1,2) by (simp add: in_span_def)
  have "ell < i + k - r" "i + k - r \<le> ell + k" using assms(2,3) by simp_all
  then have hi: "x \<le> t ! (i + k - r)" using assms(1) by (simp add: in_span_def)
  show ?thesis by (rule ratio_bounds) (use lo hi in simp_all)
qed

lemma convex_between:
  fixes al p q :: real
  assumes "0 \<le> al" "al \<le> 1" "p \<le> q"
  shows "p \<le> (1 - al) * p + al * q" "(1 - al) * p + al * q \<le> q"
proof -
  have "(1 - al) * p + al * q = p + al * (q - p)" by (simp add: algebra_simps)
  moreover have "0 \<le> al * (q - p)" using assms by simp
  ultimately show "p \<le> (1 - al) * p + al * q" by simp
  have "(1 - al) * p + al * q = q - (1 - al) * (q - p)" by (simp add: algebra_simps)
  moreover have "0 \<le> (1 - al) * (q - p)" using assms by simp
  ultimately show "(1 - al) * p + al * q \<le> q" by simp
qed

lemma deBoor_coef_mono_index:
  assumes span: "in_span t k ell x" and c: "\<And>i. c i \<le> c (Suc i)" and k: "k \<le> ell"
  shows "r \<le> k \<Longrightarrow> ell + r \<le> i + k \<Longrightarrow> i < ell \<Longrightarrow>
         deBoor_coef t c k x r i \<le> deBoor_coef t c k x r (Suc i)"
proof (induction r arbitrary: i)
  case 0
  then show ?case by (simp add: c)
next
  case (Suc r)
  let ?D = "deBoor_coef t c k x r"
  have i1: "1 \<le> i" using Suc.prems k by linarith
  have a: "?D (i - 1) \<le> ?D i"
    using Suc.IH[of "i - 1"] Suc.prems i1 by simp
  have b: "?D i \<le> ?D (Suc i)"
    using Suc.IH[of i] Suc.prems by simp
  have al_i: "0 \<le> (x - t ! i) / (t ! (i + k - r) - t ! i) \<and> (x - t ! i) / (t ! (i + k - r) - t ! i) \<le> 1"
    using span Suc.prems by (intro alpha_bounds[where ell = ell]) simp_all
  have al_s: "0 \<le> (x - t ! Suc i) / (t ! (Suc i + k - r) - t ! Suc i) \<and>
              (x - t ! Suc i) / (t ! (Suc i + k - r) - t ! Suc i) \<le> 1"
    using span Suc.prems by (intro alpha_bounds[where ell = ell]) simp_all
  have "deBoor_coef t c k x (Suc r) i \<le> ?D i"
    unfolding deBoor_coef.simps Let_def using al_i a by (intro convex_between(2)) simp_all
  also have "?D i \<le> (1 - (x - t ! Suc i) / (t ! (Suc i + k - r) - t ! Suc i)) * ?D i
      + (x - t ! Suc i) / (t ! (Suc i + k - r) - t ! Suc i) * ?D (Suc i)"
    using al_s b by (intro convex_between(1)) simp_all
  also have "\<dots> = deBoor_coef t c k x (Suc r) (Suc i)"
    by (simp add: Let_def)
  finally show ?case .
qed

lemma deBoor_coef_between:
  assumes span: "in_span t k ell x" and c: "\<And>i. c i \<le> c (Suc i)" and k: "k \<le> ell"
    and r: "Suc r \<le> k" and i: "ell + Suc r \<le> i + k" "i \<le> ell"
  shows "deBoor_coef t c k x r (i - 1) \<le> deBoor_coef t c k x (Suc r) i"
    and "deBoor_coef t c k x (Suc r) i \<le> deBoor_coef t c k x r i"
proof -
  let ?D = "deBoor_coef t c k x r"
  have i1: "1 \<le> i" using i k r by linarith
  have "?D (i - 1) \<le> ?D (Suc (i - 1))"
    using span c k by (rule deBoor_coef_mono_index) (use r i i1 in simp_all)
  then have a: "?D (i - 1) \<le> ?D i" using i1 by simp
  have al: "0 \<le> (x - t ! i) / (t ! (i + k - r) - t ! i) \<and> (x - t ! i) / (t ! (i + k - r) - t ! i) \<le> 1"
    using span i by (intro alpha_bounds[where ell = ell]) simp_all
  show "?D (i - 1) \<le> deBoor_coef t c k x (Suc r) i"
    unfolding deBoor_coef.simps Let_def using al a by (intro convex_between(1)) simp_all
  show "deBoor_coef t c k x (Suc r) i \<le> ?D i"
    unfolding deBoor_coef.simps Let_def using al a by (intro convex_between(2)) simp_all
qed

lemma convex_mono:
  fixes ax ay px qx py qy :: real
  assumes "ax \<le> ay" "0 \<le> ay" "ay \<le> 1" "px \<le> qx" "px \<le> py" "qx \<le> qy"
  shows "(1 - ax) * px + ax * qx \<le> (1 - ay) * py + ay * qy"
proof -
  have "(1 - ax) * px + ax * qx = px + ax * (qx - px)" by (simp add: algebra_simps)
  also have "\<dots> \<le> px + ay * (qx - px)"
    using assms(1,4) by (simp add: mult_right_mono)
  also have "\<dots> = (1 - ay) * px + ay * qx" by (simp add: algebra_simps)
  also have "\<dots> \<le> (1 - ay) * py + ay * qy"
    using assms(2,3,5,6) by (intro add_mono mult_left_mono) simp_all
  finally show ?thesis .
qed

lemma deBoor_coef_mono_point:
  assumes sx: "in_span t k ell x" and sy: "in_span t k ell y" and xy: "x \<le> y"
    and c: "\<And>i. c i \<le> c (Suc i)" and k: "k \<le> ell"
  shows "r \<le> k \<Longrightarrow> ell + r \<le> i + k \<Longrightarrow> i \<le> ell \<Longrightarrow>
         deBoor_coef t c k x r i \<le> deBoor_coef t c k y r i"
proof (induction r arbitrary: i)
  case 0
  then show ?case by simp
next
  case (Suc r)
  have i1: "1 \<le> i" using Suc.prems k by linarith
  have p: "deBoor_coef t c k x r (i - 1) \<le> deBoor_coef t c k y r (i - 1)"
    using Suc.prems i1 by (intro Suc.IH) simp_all
  have q: "deBoor_coef t c k x r i \<le> deBoor_coef t c k y r i"
    using Suc.prems by (intro Suc.IH) simp_all
  have "deBoor_coef t c k x r (i - 1) \<le> deBoor_coef t c k x r (Suc (i - 1))"
    using sx c k by (rule deBoor_coef_mono_index) (use Suc.prems i1 in simp_all)
  then have pq: "deBoor_coef t c k x r (i - 1) \<le> deBoor_coef t c k x r i" using i1 by simp
  have aly: "0 \<le> (y - t ! i) / (t ! (i + k - r) - t ! i) \<and> (y - t ! i) / (t ! (i + k - r) - t ! i) \<le> 1"
    using sy Suc.prems by (intro alpha_bounds[where ell = ell]) simp_all
  have "ell < i + k - r" "i + k - r \<le> ell + k" using Suc.prems by simp_all
  then have "x \<le> t ! (i + k - r)" using sx by (simp add: in_span_def)
  moreover have "t ! i \<le> x" using sx Suc.prems by (simp add: in_span_def)
  ultimately have d: "0 \<le> t ! (i + k - r) - t ! i" by simp
  have alxy: "(x - t ! i) / (t ! (i + k - r) - t ! i) \<le> (y - t ! i) / (t ! (i + k - r) - t ! i)"
    using xy d by (intro divide_right_mono) simp_all
  show ?case
    unfolding deBoor_coef.simps Let_def
    using alxy aly pq p q by (intro convex_mono) simp_all
qed

lemma deBoor_coef_cross:
  assumes s0: "in_span t k ell x" and s1: "in_span t k (Suc ell) x"
    and c: "\<And>i. c i \<le> c (Suc i)" and k: "k \<le> ell"
  shows "deBoor_coef t c k x k ell \<le> deBoor_coef t c k x k (Suc ell)"
proof (cases k)
  case 0
  then show ?thesis by (simp add: c)
next
  case (Suc k')
  have "deBoor_coef t c k x (Suc k') ell \<le> deBoor_coef t c k x k' ell"
    using s0 c k by (rule deBoor_coef_between(2)) (simp_all add: Suc)
  also have "\<dots> = deBoor_coef t c k x k' (Suc ell - 1)" by simp
  also have "\<dots> \<le> deBoor_coef t c k x (Suc k') (Suc ell)"
    using s1 c by (rule deBoor_coef_between(1)) (use k in \<open>simp_all add: Suc\<close>)
  finally show ?thesis by (simp add: Suc)
qed

lemma deBoor_coef_at_right_end:
  assumes lo: "\<And>i. i \<le> ell \<Longrightarrow> t ! i < x" and hi: "\<And>i. ell < i \<Longrightarrow> i \<le> ell + k \<Longrightarrow> t ! i = x"
  shows "r \<le> k \<Longrightarrow> ell + r \<le> i + k \<Longrightarrow> i \<le> ell \<Longrightarrow> deBoor_coef t c k x r i = c i"
proof (induction r arbitrary: i)
  case 0
  then show ?case by simp
next
  case (Suc r)
  have "t ! (i + k - r) = x" using Suc.prems by (intro hi) simp_all
  moreover have "t ! i \<noteq> x" using lo[of i] Suc.prems by simp
  ultimately have al: "(x - t ! i) / (t ! (i + k - r) - t ! i) = 1" by simp
  have ih: "deBoor_coef t c k x r i = c i" using Suc.prems by (intro Suc.IH) simp_all
  show ?case unfolding deBoor_coef.simps Let_def al ih by simp
qed

lemma deBoor_coef_at_left_end:
  assumes lo: "\<And>i. i \<le> ell \<Longrightarrow> t ! i = x"
  shows "i \<le> ell \<Longrightarrow> deBoor_coef t c k x r i = c (i - r)"
proof (induction r arbitrary: i)
  case 0
  then show ?case by simp
next
  case (Suc r)
  have al: "(x - t ! i) / (t ! (i + k - r) - t ! i) = 0" using lo[of i] Suc.prems by simp
  have ih: "deBoor_coef t c k x r (i - 1) = c (i - 1 - r)" using Suc.prems by (intro Suc.IH) simp
  show ?case unfolding deBoor_coef.simps Let_def al ih by simp
qed

section \<open>The I-spline columns as sums of B-splines\<close>

lemma length_cumsum_from [simp]: "length (cumsum_from acc vs) = length vs"
  by (induction vs arbitrary: acc) simp_all

lemma nth_cumsum_from:
  "j < length vs \<Longrightarrow> cumsum_from acc vs ! j = acc + sum_list (take (Suc j) vs)"
proof (induction vs arbitrary: acc j)
  case Nil
  then show ?case by simp
next
  case (Cons v vs)
  then show ?case by (cases j) (simp_all add: add.assoc)
qed

lemma length_reverse_cumsum [simp]: "length (reverse_cumsum row) = length row"
  by (simp add: reverse_cumsum_def cumsum_def)

lemma nth_reverse_cumsum:
  assumes "j < length row"
  shows "reverse_cumsum row ! j = sum_list (drop j row)"
proof -
  let ?n = "length row"
  have "reverse_cumsum row ! j = cumsum_from 0 (rev row) ! (?n - Suc j)"
    using assms by (simp add: reverse_cumsum_def cumsum_def rev_nth)
  also have "\<dots> = sum_list (take (Suc (?n - Suc j)) (rev row))"
    using assms by (simp add: nth_cumsum_from)
  also have "Suc (?n - Suc j) = ?n - j" using assms by simp
  also have "take (?n - j) (rev row) = rev (drop j row)"
    using assms by (simp add: take_rev)
  finally show ?thesis by (simp add: sum_list_rev)
qed

lemma sum_list_drop_nth:
  fixes row :: "real list"
  shows "sum_list (drop j row) = (\<Sum>i\<in>{j..<length row}. row ! i)"
proof -
  have "drop j row = map (\<lambda>i. row ! i) [j..<length row]"
    by (rule nth_equalityI) simp_all
  then have "sum_list (drop j row) = sum_list (map (\<lambda>i. row ! i) [j..<length row])" by simp
  also have "\<dots> = (\<Sum>i\<in>{j..<length row}. row ! i)"
    by (simp add: interv_sum_list_conv_sum_set_nat)
  finally show ?thesis .
qed

lemma BSpline_call_sum:
  "BSpline_call \<lparr>bs_t = t, bs_c = cs, bs_k = k\<rparr> xv =
     (\<Sum>a\<le>k. cs ! (find_interval t k xv + a - k) * deBoor_D t xv k (find_interval t k xv) ! a)"
proof -
  have e: "set [0..<Suc k] = {..k}" by auto
  show ?thesis
    unfolding BSpline_call_def Let_def interv_sum_list_conv_sum_set_nat
    by (simp only: BSpline.simps e)
qed

lemma length_bspline_row [simp]: "length (bspline_row t k n xv) = n"
  by (simp add: bspline_row_def)

lemma knots_separated:
  assumes ab: "a < b" and l: "k \<le> ell" "ell \<le> k + m"
    and i: "i \<le> ell" "ell < i'" "i' \<le> ell + k"
  shows "knot_sequence a b k m ! i < knot_sequence a b k m ! i'"
proof -
  have "knot a b k m i \<le> knot a b k m ell" using ab i by (intro knot_mono) simp_all
  also have "\<dots> < knot a b k m (Suc ell)" using ab l by (intro knot_strict_mono) simp_all
  also have "\<dots> \<le> knot a b k m i'" using ab i by (intro knot_mono) simp_all
  finally show ?thesis using l i by (simp add: nth_knot_sequence)
qed

lemma spline_value_as_coef:
  fixes a b xv :: real and k m :: nat and c :: "nat \<Rightarrow> real"
  assumes ab: "a < b"
  defines "K \<equiv> knot_sequence a b k m"
  defines "ell \<equiv> find_interval (knot_sequence a b k m) k xv"
  shows "(\<Sum>a\<le>k. c (ell + a - k) * deBoor_D K xv k ell ! a) = deBoor_coef K c k xv k ell"
proof -
  note fi = find_interval_knots[OF ab, of k m xv]
  define q where "q = ell - k"
  have l: "ell = q + k" using fi(1) by (simp add: q_def ell_def)
  have sep: "K ! i \<noteq> K ! i'" if "i \<le> q + k" "q + k < i'" "i' \<le> q + k + k" for i i'
  proof -
    have "K ! i < K ! i'"
      unfolding K_def using ab fi(1,2) that unfolding l[symmetric] ell_def
      by (intro knots_separated[where ell = "find_interval (knot_sequence a b k m) k xv"]) simp_all
    then show ?thesis by simp
  qed
  have "(\<Sum>a\<le>k. deBoor_D K xv k (q + k) ! a * deBoor_coef K c k xv 0 (q + 0 + a)) =
        deBoor_coef K c k xv k (q + k)"
    using sep by (intro deBoor_duality) simp_all
  moreover have "q + k + a - k = q + a" for a by simp
  ultimately show ?thesis unfolding l by (simp add: mult.commute)
qed

lemma ispline_raw:
  assumes ab: "a < b" and k: "k \<le> nb" and j: "j < nb"
  shows "reverse_cumsum (tl (bspline_row (knot_sequence a b k (nb - k)) k (Suc nb) xv)) ! j =
         ispline_value a b k nb j xv"
proof -
  let ?K = "knot_sequence a b k (nb - k)"
  let ?row = "bspline_row ?K k (Suc nb) xv"
  let ?l = "find_interval ?K k xv"
  let ?H = "deBoor_D ?K xv k ?l"
  note fi = find_interval_knots[OF ab, of k "nb - k" xv]
  have lnb: "?l \<le> nb" using fi(2) k by simp
  have "reverse_cumsum (tl ?row) ! j = sum_list (drop j (tl ?row))"
    using j by (intro nth_reverse_cumsum) simp
  also have "\<dots> = sum_list (drop (Suc j) ?row)" by (simp add: drop_Suc)
  also have "\<dots> = (\<Sum>i\<in>{Suc j..<Suc nb}. ?row ! i)"
    by (simp add: sum_list_drop_nth del: upt_Suc)
  also have "\<dots> = (\<Sum>i\<in>{Suc j..<Suc nb}. \<Sum>a\<le>k. (if ?l + a - k = i then 1 else 0) * ?H ! a)"
  proof (rule sum.cong)
    fix i assume "i \<in> {Suc j..<Suc nb}"
    then have i: "i < Suc nb" by simp
    have "unit_vector (Suc nb) i ! (?l + a - k) = (if ?l + a - k = i then 1 else 0)"
      if "a \<le> k" for a
      using that lnb by (intro nth_unit_vector) simp
    then show "?row ! i = (\<Sum>a\<le>k. (if ?l + a - k = i then 1 else 0) * ?H ! a)"
      using i by (simp add: bspline_row_def BSpline_call_sum del: upt_Suc)
  qed (rule refl)
  also have "\<dots> = (\<Sum>a\<le>k. \<Sum>i\<in>{Suc j..<Suc nb}. (if ?l + a - k = i then 1 else 0) * ?H ! a)"
    by (rule sum.swap)
  also have "\<dots> = (\<Sum>a\<le>k. (if j < ?l + a - k then 1 else 0) * ?H ! a)"
  proof (rule sum.cong)
    fix a assume "a \<in> {..k}"
    then have a: "?l + a - k < Suc nb" using lnb by simp
    have "(\<Sum>i\<in>{Suc j..<Suc nb}. (if ?l + a - k = i then 1 else 0) * ?H ! a) =
          (\<Sum>i\<in>{Suc j..<Suc nb}. if i = ?l + a - k then ?H ! a else 0)"
      by (rule sum.cong) auto
    also have "\<dots> = (if ?l + a - k \<in> {Suc j..<Suc nb} then ?H ! a else 0)"
      by (rule sum.delta) simp
    also have "\<dots> = (if j < ?l + a - k then 1 else 0) * ?H ! a"
      using a by auto
    finally show "(\<Sum>i\<in>{Suc j..<Suc nb}. (if ?l + a - k = i then 1 else 0) * ?H ! a) =
        (if j < ?l + a - k then 1 else 0) * ?H ! a" .
  qed (rule refl)
  also have "\<dots> = deBoor_coef ?K (\<lambda>i. if j < i then 1 else 0) k xv k ?l"
    using ab by (rule spline_value_as_coef)
  finally show ?thesis by (simp add: ispline_value_def)
qed

section \<open>Boundary values and monotonicity of a column\<close>

lemma find_interval_at_max:
  assumes "a < b"
  shows "find_interval (knot_sequence a b k m) k b = k + m"
proof (rule ccontr)
  let ?K = "knot_sequence a b k m"
  note fi = find_interval_knots[OF assms, of k m b]
  assume "find_interval ?K k b \<noteq> k + m"
  then have lt: "find_interval ?K k b < k + m" using fi(2) by simp
  then have "b < ?K ! Suc (find_interval ?K k b)" using fi(4) by simp
  moreover have "?K ! Suc (find_interval ?K k b) \<le> b"
    using lt assms by (simp add: nth_knot_sequence knot_le_hi)
  ultimately show False by simp
qed

lemma find_interval_at_min:
  assumes "a < b"
  shows "find_interval (knot_sequence a b k m) k a = k"
proof (rule ccontr)
  let ?K = "knot_sequence a b k m"
  note fi = find_interval_knots[OF assms, of k m a]
  assume "find_interval ?K k a \<noteq> k"
  then have lt: "k < find_interval ?K k a" using fi(1) by simp
  then have "?K ! Suc k \<le> a" using fi(3) by simp
  moreover have "knot a b k m k < knot a b k m (Suc k)"
    using assms by (intro knot_strict_mono) simp_all
  ultimately show False using fi(2) lt by (simp add: nth_knot_sequence knot_def)
qed

lemma ispline_value_at_max:
  assumes ab: "a < b" and k: "k \<le> nb" and j: "j < nb"
  shows "ispline_value a b k nb j b = 1"
proof -
  let ?K = "knot_sequence a b k (nb - k)"
  have l: "find_interval ?K k b = nb" using find_interval_at_max[OF ab, of k "nb - k"] k by simp
  have lo: "?K ! i < b" if "i \<le> nb" for i
  proof -
    have "knot a b k (nb - k) i \<le> knot a b k (nb - k) nb"
      using ab that by (intro knot_mono) simp_all
    also have "\<dots> < knot a b k (nb - k) (Suc nb)"
      using ab k by (intro knot_strict_mono) simp_all
    also have "\<dots> = b" using k by (simp add: knot_def)
    finally show ?thesis using that k by (simp add: nth_knot_sequence)
  qed
  have hi: "?K ! i = b" if "nb < i" "i \<le> nb + k" for i
    using that k by (simp add: nth_knot_sequence knot_def)
  have "deBoor_coef ?K (\<lambda>i. if j < i then 1 else 0) k b k nb = (if j < nb then 1 else 0)"
    by (rule deBoor_coef_at_right_end[where ell = nb]) (simp_all add: lo hi)
  then show ?thesis using j by (simp add: ispline_value_def l)
qed

lemma ispline_value_at_min:
  assumes ab: "a < b"
  shows "ispline_value a b k nb j a = 0"
proof -
  let ?K = "knot_sequence a b k (nb - k)"
  have l: "find_interval ?K k a = k" using find_interval_at_min[OF ab] .
  have lo: "?K ! i = a" if "i \<le> k" for i
    using that by (simp add: nth_knot_sequence knot_def)
  have "deBoor_coef ?K (\<lambda>i. if j < i then 1 else 0) k a k k = (if j < k - k then 1 else 0)"
    by (rule deBoor_coef_at_left_end[where ell = k]) (simp_all add: lo)
  then show ?thesis by (simp add: ispline_value_def l)
qed

lemma in_span_at_knot:
  assumes ab: "a < b" and l: "k \<le> ell" "ell \<le> k + m"
  shows "in_span (knot_sequence a b k m) k ell (knot_sequence a b k m ! ell)"
    and "in_span (knot_sequence a b k m) k ell (knot_sequence a b k m ! Suc ell)"
proof -
  have m: "knot a b k m i \<le> knot a b k m i'" if "i \<le> i'" for i i'
    using ab that by (intro knot_mono) simp_all
  show "in_span (knot_sequence a b k m) k ell (knot_sequence a b k m ! ell)"
    unfolding in_span_def using l by (auto simp: nth_knot_sequence intro!: m)
  show "in_span (knot_sequence a b k m) k ell (knot_sequence a b k m ! Suc ell)"
    unfolding in_span_def using l by (auto simp: nth_knot_sequence intro!: m)
qed

lemma piece_chain:
  fixes a b :: real and k m :: nat and c :: "nat \<Rightarrow> real"
  assumes ab: "a < b" and c: "\<And>i. c i \<le> c (Suc i)"
  defines "K \<equiv> knot_sequence a b k m"
  shows "k \<le> l \<Longrightarrow> l + d \<le> k + m \<Longrightarrow>
         deBoor_coef K c k (K ! l) k l \<le> deBoor_coef K c k (K ! (l + d)) k (l + d)"
proof (induction d)
  case 0
  then show ?case by simp
next
  case (Suc d)
  let ?e = "l + d"
  have e: "k \<le> ?e" "?e \<le> k + m" "Suc ?e \<le> k + m" using Suc.prems by simp_all
  have "deBoor_coef K c k (K ! l) k l \<le> deBoor_coef K c k (K ! ?e) k ?e"
    using Suc by simp
  also have "\<dots> \<le> deBoor_coef K c k (K ! Suc ?e) k ?e"
  proof (rule deBoor_coef_mono_point[where ell = ?e])
    show "in_span K k ?e (K ! ?e)" unfolding K_def using ab e by (intro in_span_at_knot(1))
    show "in_span K k ?e (K ! Suc ?e)" unfolding K_def using ab e by (intro in_span_at_knot(2))
    show "K ! ?e \<le> K ! Suc ?e"
      unfolding K_def using ab e by (simp add: nth_knot_sequence knot_mono)
  qed (use c e in simp_all)
  also have "\<dots> \<le> deBoor_coef K c k (K ! Suc ?e) k (Suc ?e)"
  proof (rule deBoor_coef_cross)
    show "in_span K k ?e (K ! Suc ?e)" unfolding K_def using ab e by (intro in_span_at_knot(2))
    show "in_span K k (Suc ?e) (K ! Suc ?e)"
      unfolding K_def using ab e by (intro in_span_at_knot(1)) simp_all
  qed (use c e in simp_all)
  finally show ?case by simp
qed

lemma spline_monotone:
  fixes a b x y :: real and k m :: nat and c :: "nat \<Rightarrow> real"
  assumes ab: "a < b" and c: "\<And>i. c i \<le> c (Suc i)" and x: "a \<le> x" "x \<le> y" "y \<le> b"
  defines "K \<equiv> knot_sequence a b k m"
  shows "deBoor_coef K c k x k (find_interval K k x) \<le> deBoor_coef K c k y k (find_interval K k y)"
proof -
  let ?lx = "find_interval K k x" and ?ly = "find_interval K k y"
  note fx = find_interval_knots[OF ab, of k m x, folded K_def]
  note fy = find_interval_knots[OF ab, of k m y, folded K_def]
  have sx: "in_span K k ?lx x" unfolding K_def using ab x by (intro in_span_knots) simp_all
  have sy: "in_span K k ?ly y" unfolding K_def using ab x by (intro in_span_knots) simp_all
  have le: "?lx \<le> ?ly" unfolding K_def using ab x(2) by (rule find_interval_mono)
  show ?thesis
  proof (cases "?lx = ?ly")
    case True
    have "deBoor_coef K c k x k ?lx \<le> deBoor_coef K c k y k ?lx"
      using sx sy[folded True] x(2) c fx(1) by (rule deBoor_coef_mono_point) simp_all
    then show ?thesis using True by simp
  next
    case False
    then have lt: "?lx < ?ly" using le by simp
    have xs: "x \<le> K ! Suc ?lx" using fx(4) lt fy(2) by simp
    have ys: "K ! ?ly \<le> y" using fy(3) lt fx(1) by simp
    have "deBoor_coef K c k x k ?lx \<le> deBoor_coef K c k (K ! Suc ?lx) k ?lx"
    proof (rule deBoor_coef_mono_point[where ell = ?lx])
      show "in_span K k ?lx (K ! Suc ?lx)"
        unfolding K_def using ab fx(1,2) unfolding K_def by (intro in_span_at_knot(2))
    qed (use sx xs c fx(1) in simp_all)
    also have "\<dots> \<le> deBoor_coef K c k (K ! Suc ?lx) k (Suc ?lx)"
    proof (rule deBoor_coef_cross)
      show "in_span K k ?lx (K ! Suc ?lx)"
        unfolding K_def using ab fx(1,2) unfolding K_def by (intro in_span_at_knot(2))
      show "in_span K k (Suc ?lx) (K ! Suc ?lx)"
        unfolding K_def using ab fx(1) lt fy(2) unfolding K_def
        by (intro in_span_at_knot(1)) simp_all
    qed (use c fx(1) in simp_all)
    also have "\<dots> \<le> deBoor_coef K c k (K ! (Suc ?lx + (?ly - Suc ?lx))) k (Suc ?lx + (?ly - Suc ?lx))"
      unfolding K_def using ab c
      by (rule piece_chain) (use fx(1) lt fy(2) in \<open>simp_all add: K_def\<close>)
    also have "Suc ?lx + (?ly - Suc ?lx) = ?ly" using lt by simp
    also have "deBoor_coef K c k (K ! ?ly) k ?ly \<le> deBoor_coef K c k y k ?ly"
    proof (rule deBoor_coef_mono_point[where ell = ?ly])
      show "in_span K k ?ly (K ! ?ly)"
        unfolding K_def using ab fy(1,2) unfolding K_def by (intro in_span_at_knot(1))
    qed (use sy ys c fy(1) in simp_all)
    finally show ?thesis .
  qed
qed

lemma ispline_value_mono:
  assumes "a < b" "a \<le> x" "x \<le> y" "y \<le> b"
  shows "ispline_value a b k nb j x \<le> ispline_value a b k nb j y"
  unfolding ispline_value_def using assms by (intro spline_monotone) simp_all

section \<open>The I-spline basis in closed form\<close>

lemma ispline_row:
  assumes "a < b" "k \<le> nb"
  shows "reverse_cumsum (tl (bspline_row (knot_sequence a b k (nb - k)) k (Suc nb) xv)) =
         map (\<lambda>j. ispline_value a b k nb j xv) [0..<nb]"
  by (rule nth_equalityI) (simp_all add: ispline_raw[OF assms])

lemma norm_constants_one:
  assumes "a < b" "k \<le> nb"
  shows "map (\<lambda>v. if v = 0 then 1 else v) (map (\<lambda>j. ispline_value a b k nb j b) [0..<nb]) =
         replicate nb 1"
  by (rule nth_equalityI) (simp_all add: ispline_value_at_max[OF assms])

lemma divide_by_ones:
  fixes row :: "real list"
  shows "length row = n \<Longrightarrow> map2 (\<lambda>v c. v / c) row (replicate n 1) = row"
  by (rule nth_equalityI) simp_all

lemma create_ispline_basis_eq:
  "create_ispline_basis x nb k (Some a) (Some b) =
     (if a < b \<and> k \<le> nb
      then Inr (map (\<lambda>xv. map (\<lambda>j. ispline_value a b k nb j xv) [0..<nb]) x,
                knot_sequence a b k (nb - k))
      else Inl ValueError)"
proof (cases "a < b \<and> k \<le> nb")
  case True
  then have v: "a < b" "k \<le> nb" by simp_all
  have rows: "map (\<lambda>row. map2 (\<lambda>v c. v / c) row (replicate nb 1))
          (map reverse_cumsum (map tl (map (bspline_row (knot_sequence a b k (nb - k)) k (Suc nb)) x))) =
        map (\<lambda>xv. map (\<lambda>j. ispline_value a b k nb j xv) [0..<nb]) x"
    by (simp add: ispline_row[OF v] divide_by_ones comp_def)
  have norm: "map ((\<lambda>v. if v = 0 then 1 else v) \<circ> (\<lambda>j. ispline_value a b k nb j b)) [0..<nb] =
      replicate nb 1"
    using norm_constants_one[OF v] by simp
  have div: "map2 (/) (map (\<lambda>j. ispline_value a b k nb j xv) [0..<nb]) (replicate nb 1) =
      map (\<lambda>j. ispline_value a b k nb j xv) [0..<nb]" for xv
    using divide_by_ones[of "map (\<lambda>j. ispline_value a b k nb j xv) [0..<nb]" nb] by simp
  show ?thesis
    unfolding create_ispline_basis_def resolve_bound_def
    using True
    by (simp add: create_bspline_basis_Suc Let_def ispline_row[OF v] norm div del: upt_Suc)
next
  case False
  then have "create_bspline_basis [b] (Suc nb) k (Some a) (Some b) = Inl ValueError"
    unfolding create_bspline_basis_Suc by (rule if_not_P)
  with False show ?thesis
    unfolding create_ispline_basis_def resolve_bound_def by simp
qed

section \<open>The evaluator in closed form\<close>

lemma dot_ispline_row:
  "dot (map (\<lambda>j. f j) [0..<nb]) coef = (\<Sum>j<nb. f j * coef ! j)"
proof -
  have "set [0..<nb] = {..<nb}" by auto
  then show ?thesis
    unfolding dot_def interv_sum_list_conv_sum_set_nat
    by (simp add: atLeast0LessThan)
qed

lemma evaluate_monotone_spline_eq:
  "evaluate_monotone_spline x p =
     (if valid_params p then Inr (map (curve_value p) x) else Inl ValueError)"
  unfolding evaluate_monotone_spline_def Let_def create_ispline_basis_eq valid_params_def
  by (auto simp: matvec_def dot_ispline_row curve_value_def comp_def)

lemma curve_value_mono:
  assumes v: "p_x_min p < p_x_max p"
    and pos: "\<And>j. j < p_n_basis p \<Longrightarrow> 0 \<le> p_coefficients p ! j"
    and x: "p_x_min p \<le> x1" "x1 \<le> x2" "x2 \<le> p_x_max p"
  shows "curve_value p x1 \<le> curve_value p x2"
proof -
  have "(\<Sum>j<p_n_basis p.
          ispline_value (p_x_min p) (p_x_max p) (get_degree p) (p_n_basis p) j x1 * p_coefficients p ! j)
        \<le> (\<Sum>j<p_n_basis p.
          ispline_value (p_x_min p) (p_x_max p) (get_degree p) (p_n_basis p) j x2 * p_coefficients p ! j)"
  proof (rule sum_mono)
    fix j assume "j \<in> {..<p_n_basis p}"
    then have c: "0 \<le> p_coefficients p ! j" using pos by simp
    have "ispline_value (p_x_min p) (p_x_max p) (get_degree p) (p_n_basis p) j x1
        \<le> ispline_value (p_x_min p) (p_x_max p) (get_degree p) (p_n_basis p) j x2"
      using v x by (rule ispline_value_mono)
    then show "ispline_value (p_x_min p) (p_x_max p) (get_degree p) (p_n_basis p) j x1 * p_coefficients p ! j
        \<le> ispline_value (p_x_min p) (p_x_max p) (get_degree p) (p_n_basis p) j x2 * p_coefficients p ! j"
      using c by (rule mult_right_mono)
  qed
  then show ?thesis by (simp add: curve_value_def)
qed

lemma softplus_pos: "0 < softplus t"
proof -
  have "0 < exp t" by simp
  then have "1 < 1 + exp t" "0 < 1 + exp t" by linarith+
  then show ?thesis unfolding softplus_def by (simp add: ln_gt_zero_iff)
qed

section \<open>What a returned fit consists of\<close>

lemma case_best_Inr:
  "(case best of None \<Rightarrow> Inl e | Some (result, best_loss) \<Rightarrow> f result best_loss) = Inr r
   \<longleftrightarrow> (\<exists>result best_loss. best = Some (result, best_loss) \<and> f result best_loss = Inr r)"
  by (auto split: option.splits)

lemma ispline_row_at_fun:
  "ispline_row_at lo hi k nb = (\<lambda>xv. map (\<lambda>j. ispline_value lo hi k nb j xv) [0..<nb])"
  by (simp add: fun_eq_iff ispline_row_at_def)

lemma fit_monotone_spline_InrE:
  assumes "fit_monotone_spline x y nb w k sp anchor xmin xmax minimize = Inr (p, info)"
  obtains (fields) lo hi result anchor' best_loss icpt residuals where
    "resolve_bound xmin (np_min x) = Inr lo" "resolve_bound xmax (np_max x) = Inr hi"
    "lo < hi" "k \<le> nb" "nb \<le> length (res_x result)"
    "(case anchor of None \<Rightarrow> Inr None
       | Some (x_anchor, y_anchor) \<Rightarrow>
           bind_result (create_ispline_basis [x_anchor] nb k (Some lo) (Some hi))
             (\<lambda>(basis_anchor, _). Inr (Some (y_anchor, basis_anchor)))) = Inr anchor'"
    "restart_loop
        (loss nb (map (ispline_row_at lo hi k nb) x) anchor' y
           (normalize_weights (case w of None \<Rightarrow> map (\<lambda>_. 1) x | Some w \<Rightarrow> w)) sp)
        (map minimize [0..<3]) None = Inr (Some (result, best_loss))"
    "fit_intercept nb anchor' (map softplus (take nb (res_x result))) (res_x result) = Inr icpt"
    "p = \<lparr>p_coefficients = map softplus (take nb (res_x result)), p_intercept = icpt,
            p_n_basis = nb, p_degree = Some k, p_x_min = lo, p_x_max = hi,
            p_knots = knot_sequence lo hi k (nb - k), p_globalIntercept = None\<rparr>"
    "broadcast2 (\<lambda>u v. u - v) y
        (map (\<lambda>xv. icpt + dot (ispline_row_at lo hi k nb xv) (map softplus (take nb (res_x result)))) x)
        = Inr residuals"
    "fi_rmse info = map_option sqrt (np_mean (map square residuals))"
proof -
  from assms show thesis
    unfolding fit_monotone_spline_def Let_def
    apply (simp add: bind_result_eq_Inr create_ispline_basis_eq case_best_Inr
        split: if_splits cong: if_cong)
    apply (elim exE conjE)
    apply (simp add: predict_def matvec_def bind_result_eq_Inr comp_def split: if_splits)
    apply (elim exE conjE)
    subgoal for lo hi anchor' vc result best_loss icpt residuals
      apply (rule that[of lo hi result anchor' best_loss icpt residuals])
      apply (auto simp: ispline_row_at_fun comp_def)
      done
    done
qed

section \<open>Weights and the objective\<close>

lemma broadcast2_same_length:
  "length us = length vs \<Longrightarrow> broadcast2 f us vs = Inr (map2 f us vs)"
  by (simp add: broadcast2_def)

lemma normalize_weights_nonzero:
  "sum_list w \<noteq> 0 \<Longrightarrow> normalize_weights w = map (\<lambda>v. Some (v / sum_list w)) w"
  by (simp add: normalize_weights_def Let_def)

lemma normalize_weights_zero:
  "sum_list w = 0 \<Longrightarrow> normalize_weights w = map (\<lambda>v. None) w"
  by (simp add: normalize_weights_def Let_def)

lemma length_normalize_weights [simp]: "length (normalize_weights w) = length w"
  by (simp add: normalize_weights_def Let_def)

lemma nan_sum_all_Some: "nan_sum (map (\<lambda>v. Some (f v)) vs) = Some (sum_list (map f vs))"
  by (auto simp: nan_sum_def comp_def)

lemma nan_sum_None: "None \<in> set vs \<Longrightarrow> nan_sum vs = None"
  by (simp add: nan_sum_def)

lemma sum_list_divide:
  fixes w :: "real list"
  shows "sum_list (map (\<lambda>v. v / s) w) = sum_list w / s"
  by (induction w) (simp_all add: add_divide_distrib)

lemma fit_intercept_ok:
  assumes "length coef = nb" "anchor = None \<longrightarrow> nb < length params"
    and "\<And>y0 rows. anchor = Some (y0, rows) \<Longrightarrow> True"
  shows "\<exists>icpt. fit_intercept nb anchor coef params = Inr icpt"
  using assms by (auto simp: fit_intercept_def matvec_def split: option.splits)

lemma predict_ok:
  "length coef = nb \<Longrightarrow> predict nb basis coef icpt = Inr (map (\<lambda>row. icpt + dot row coef) basis)"
  by (simp add: predict_def matvec_def comp_def)

lemma weighted_sum_same_length:
  "length us = length vs \<Longrightarrow> weighted_sum us vs = Inr (nan_sum (map2 nan_times us vs))"
  by (simp add: weighted_sum_def broadcast2_same_length)

lemma nan_sum_products_finite:
  assumes "None \<notin> set us" "None \<notin> set vs"
  shows "\<exists>m. nan_sum (map2 nan_times us vs) = Some m"
proof -
  have "nan_times u v \<noteq> None" if "(u, v) \<in> set (zip us vs)" for u v
  proof -
    have uv: "u \<in> set us" "v \<in> set vs" using that by (auto dest: set_zip_leftD set_zip_rightD)
    have "u \<noteq> None" using uv(1) assms(1) by metis
    moreover have "v \<noteq> None" using uv(2) assms(2) by metis
    ultimately obtain a b where "u = Some a" "v = Some b" by auto
    then show ?thesis by (simp add: nan_times_def)
  qed
  then have "None \<notin> set (map2 nan_times us vs)" by force
  then show ?thesis by (simp add: nan_sum_def)
qed

lemma nan_sum_products_nan:
  assumes "\<And>u. u \<in> set us \<Longrightarrow> u = None" "length us = length vs" "us \<noteq> []"
  shows "nan_sum (map2 nan_times us vs) = None"
proof -
  obtain u us' where us: "us = u # us'" using assms(3) by (cases us) auto
  then obtain v vs' where vs: "vs = v # vs'" using assms(2) by (cases vs) auto
  have "u = None" using assms(1) us by simp
  then have "None \<in> set (map2 nan_times us vs)" by (simp add: us vs nan_times_def)
  then show ?thesis by (rule nan_sum_None)
qed

lemma normalize_weights_finite: "sum_list w \<noteq> 0 \<Longrightarrow> None \<notin> set (normalize_weights w)"
  by (auto simp: normalize_weights_nonzero)

lemma normalize_weights_nan:
  "sum_list w = 0 \<Longrightarrow> u \<in> set (normalize_weights w) \<Longrightarrow> u = None"
  by (auto simp: normalize_weights_zero)

lemma loss_steps:
  assumes p: "nb \<le> length params" "anchor = None \<longrightarrow> nb < length params"
    and len: "length y = length basis" "length w = length y"
  shows "\<exists>sq. length sq = length y \<and>
           loss nb basis anchor y (normalize_weights w) sp params =
           Inr (map_option
                  (\<lambda>m. m + sp * sum_list (map square (np_diff (map softplus (take nb params)))))
                  (nan_sum (map2 nan_times (normalize_weights w) (map Some sq))))"
proof -
  let ?coef = "map softplus (take nb params)"
  have lc: "length ?coef = nb" using p by simp
  obtain icpt where i: "fit_intercept nb anchor ?coef params = Inr icpt"
    using fit_intercept_ok[OF lc p(2)] by auto
  let ?pred = "map (\<lambda>row. icpt + dot row ?coef) basis"
  define sq where "sq = map2 (\<lambda>u v. square (u - v)) y ?pred"
  have l: "length sq = length y" using len by (simp add: sq_def)
  have b: "broadcast2 (\<lambda>u v. square (u - v)) y ?pred = Inr sq"
    unfolding sq_def using len by (intro broadcast2_same_length) simp
  have ws: "weighted_sum (normalize_weights w) (map Some sq) =
      Inr (nan_sum (map2 nan_times (normalize_weights w) (map Some sq)))"
    using len l by (intro weighted_sum_same_length) simp
  have "loss nb basis anchor y (normalize_weights w) sp params =
           Inr (map_option
                  (\<lambda>m. m + sp * sum_list (map square (np_diff (map softplus (take nb params)))))
                  (nan_sum (map2 nan_times (normalize_weights w) (map Some sq))))"
    unfolding loss_def Let_def
    by (simp only: i bind_result_Inr predict_ok[OF lc] b ws)
  with l show ?thesis by blast
qed

lemma loss_finite:
  assumes p: "nb \<le> length params" "anchor = None \<longrightarrow> nb < length params"
    and len: "length y = length basis" "length w = length y" and s: "sum_list w \<noteq> 0"
  shows "\<exists>v. loss nb basis anchor y (normalize_weights w) sp params = Inr (Some v)"
proof -
  obtain sq where sq: "length sq = length y"
    "loss nb basis anchor y (normalize_weights w) sp params =
           Inr (map_option
                  (\<lambda>m. m + sp * sum_list (map square (np_diff (map softplus (take nb params)))))
                  (nan_sum (map2 nan_times (normalize_weights w) (map Some sq))))"
    using loss_steps[OF p len] by blast
  have "None \<notin> set (map Some sq)" by auto
  then obtain m where "nan_sum (map2 nan_times (normalize_weights w) (map Some sq)) = Some m"
    using nan_sum_products_finite[OF normalize_weights_finite[OF s]] by blast
  then show ?thesis unfolding sq(2) by simp
qed

lemma loss_nan:
  assumes p: "nb \<le> length params" "anchor = None \<longrightarrow> nb < length params"
    and len: "length y = length basis" "length w = length y" "w \<noteq> []" and s: "sum_list w = 0"
  shows "loss nb basis anchor y (normalize_weights w) sp params = Inr None"
proof -
  obtain sq where sq: "length sq = length y"
    "loss nb basis anchor y (normalize_weights w) sp params =
           Inr (map_option
                  (\<lambda>m. m + sp * sum_list (map square (np_diff (map softplus (take nb params)))))
                  (nan_sum (map2 nan_times (normalize_weights w) (map Some sq))))"
    using loss_steps[OF p len(1,2)] by blast
  have ne: "normalize_weights w \<noteq> []" using len(3) by (simp add: normalize_weights_def Let_def)
  have "nan_sum (map2 nan_times (normalize_weights w) (map Some sq)) = None"
    using normalize_weights_nan[OF s] len sq(1) ne by (intro nan_sum_products_nan) simp_all
  then show ?thesis unfolding sq(2) by simp
qed

lemma restart_loop_all_nan:
  "(\<And>r. r \<in> set rs \<Longrightarrow> objective (res_x r) = Inr None) \<Longrightarrow>
   restart_loop objective rs best = Inr best"
  by (induction rs arbitrary: best) simp_all

lemma restart_loop_finite:
  assumes "\<And>r. r \<in> set rs \<Longrightarrow> \<exists>v. objective (res_x r) = Inr (Some v)"
    and "rs \<noteq> [] \<or> best \<noteq> None"
  shows "\<exists>r l. restart_loop objective rs best = Inr (Some (r, l)) \<and>
           (r \<in> set rs \<or> best = Some (r, l))"
  using assms
proof (induction rs arbitrary: best)
  case Nil
  then show ?case by auto
next
  case (Cons a rs)
  obtain v where v: "objective (res_x a) = Inr (Some v)" using Cons.prems(1)[of a] by auto
  let ?best' = "(case best of None \<Rightarrow> Some (a, v)
      | Some (best_result, best_loss) \<Rightarrow> if v < best_loss then Some (a, v) else best)"
  have ne: "?best' \<noteq> None" by (auto split: option.splits)
  have "\<exists>r l. restart_loop objective rs ?best' = Inr (Some (r, l)) \<and>
           (r \<in> set rs \<or> ?best' = Some (r, l))"
    using Cons.prems(1) ne by (intro Cons.IH) auto
  then obtain r l where rl: "restart_loop objective rs ?best' = Inr (Some (r, l))"
    "r \<in> set rs \<or> ?best' = Some (r, l)" by auto
  have "r \<in> set (a # rs) \<or> best = Some (r, l)"
    using rl(2) by (auto split: option.splits if_splits)
  then show ?case using rl(1) v by auto
qed

section \<open>A zero weight sum\<close>

lemma set_trials: "r \<in> set (map minimize [0..<3]) \<Longrightarrow> \<exists>t<3. r = minimize t"
  by auto

lemma fit_zero_weight_sum:
  assumes cfg: "lo < hi" "k \<le> nb"
    and shape: "length y = length x" "length w = length x" "w \<noteq> []"
    and s: "sum_list w = 0"
    and opt: "\<And>t. t < 3 \<Longrightarrow> nb \<le> length (res_x (minimize t))"
      "\<And>t. anchor = None \<Longrightarrow> t < 3 \<Longrightarrow> nb < length (res_x (minimize t))"
  shows "fit_monotone_spline x y nb (Some w) k sp anchor (Some lo) (Some hi) minimize
         = Inl AttributeError"
proof -
  have nan: "loss nb (map (ispline_row_at lo hi k nb) x) anchor' y (normalize_weights w) sp (res_x r)
      = Inr None"
    if "r \<in> set (map minimize [0..<3])" "anchor' = None \<longleftrightarrow> anchor = None" for r anchor'
  proof -
    have "\<exists>t<3. r = minimize t" using that(1) by auto
    then obtain t where t: "t < 3" "r = minimize t" by blast
    have l1: "nb \<le> length (res_x (minimize t))" using opt(1) t(1) by blast
    have l2: "anchor' = None \<longrightarrow> nb < length (res_x (minimize t))"
      using opt(2) t(1) that(2) by blast
    show ?thesis
      unfolding t(2) using l1 l2 shape s by (intro loss_nan) simp_all
  qed
  show ?thesis
  proof (cases anchor)
    case None
    have "restart_loop (loss nb (map (ispline_row_at lo hi k nb) x) None y (normalize_weights w) sp)
        (map minimize [0..<3]) None = Inr None"
      by (rule restart_loop_all_nan) (rule nan, simp_all add: None)
    then show ?thesis
      unfolding fit_monotone_spline_def Let_def resolve_bound_def
      using cfg None by (simp add: create_ispline_basis_eq ispline_row_at_fun)
  next
    case (Some a)
    obtain x0 y0 where a: "a = (x0, y0)" by (cases a)
    have "restart_loop (loss nb (map (ispline_row_at lo hi k nb) x)
          (Some (y0, [ispline_row_at lo hi k nb x0])) y (normalize_weights w) sp)
        (map minimize [0..<3]) None = Inr None"
      by (rule restart_loop_all_nan) (rule nan, simp_all add: Some)
    then show ?thesis
      unfolding fit_monotone_spline_def Let_def resolve_bound_def
      using cfg Some a by (simp add: create_ispline_basis_eq ispline_row_at_fun)
  qed
qed

section \<open>When the fit returns\<close>

lemma nan_sum_normalize_weights:
  assumes "sum_list w \<noteq> 0"
  shows "nan_sum (normalize_weights w) = Some 1"
proof -
  have "nan_sum (normalize_weights w) = Some (sum_list (map (\<lambda>v. v / sum_list w) w))"
    unfolding normalize_weights_nonzero[OF assms] by (rule nan_sum_all_Some)
  then show ?thesis using assms by (simp add: sum_list_divide)
qed

lemma np_average_ok:
  assumes "length y = length w" "sum_list w \<noteq> 0"
  shows "\<exists>avg. np_average y (normalize_weights w) = Inr avg"
  using assms by (simp add: np_average_def Let_def nan_sum_normalize_weights)

lemma fit_monotone_spline_success:
  assumes cfg: "lo < hi" "k \<le> nb"
    and w': "w' = (case wopt of None \<Rightarrow> map (\<lambda>_. 1) x | Some w \<Rightarrow> w)"
    and shape: "length y = length x" "length w' = length x"
    and s: "sum_list w' \<noteq> 0"
    and opt: "\<And>t. t < 3 \<Longrightarrow> nb \<le> length (res_x (minimize t))"
      "\<And>t. anchor = None \<Longrightarrow> t < 3 \<Longrightarrow> nb < length (res_x (minimize t))"
  shows "\<exists>p info. fit_monotone_spline x y nb wopt k sp anchor (Some lo) (Some hi) minimize
           = Inr (p, info)"
proof -
  define anchor' where "anchor' =
    (case anchor of None \<Rightarrow> None
     | Some (x_anchor, y_anchor) \<Rightarrow> Some (y_anchor, [ispline_row_at lo hi k nb x_anchor]))"
  have an: "anchor' = None \<longleftrightarrow> anchor = None"
    by (auto simp: anchor'_def split: option.splits)
  have anchor_eq: "(case anchor of None \<Rightarrow> Inr None
       | Some (x_anchor, y_anchor) \<Rightarrow>
           bind_result (create_ispline_basis [x_anchor] nb k (Some lo) (Some hi))
             (\<lambda>(basis_anchor, _). Inr (Some (y_anchor, basis_anchor)))) = Inr anchor'"
    using cfg by (auto simp: anchor'_def create_ispline_basis_eq ispline_row_at_fun split: option.splits)
  let ?basis = "map (ispline_row_at lo hi k nb) x"
  let ?weights = "normalize_weights w'"
  have fin: "\<exists>v. loss nb ?basis anchor' y ?weights sp (res_x r) = Inr (Some v)"
    if "r \<in> set (map minimize [0..<3])" for r
  proof -
    have "\<exists>t<3. r = minimize t" using that by auto
    then obtain t where t: "t < 3" "r = minimize t" by blast
    have l1: "nb \<le> length (res_x (minimize t))" using opt(1) t(1) by blast
    have l2: "anchor' = None \<longrightarrow> nb < length (res_x (minimize t))"
      using opt(2) t(1) an by blast
    show ?thesis
      unfolding t(2) using l1 l2 shape s by (intro loss_finite) simp_all
  qed
  have "\<exists>r l. restart_loop (loss nb ?basis anchor' y ?weights sp) (map minimize [0..<3]) None
           = Inr (Some (r, l)) \<and> (r \<in> set (map minimize [0..<3]) \<or> None = Some (r, l))"
    by (rule restart_loop_finite) (use fin in auto)
  then obtain r l where rl:
    "restart_loop (loss nb ?basis anchor' y ?weights sp) (map minimize [0..<3]) None
       = Inr (Some (r, l))" "r \<in> set (map minimize [0..<3])" by auto
  have "\<exists>t<3. r = minimize t" using rl(2) by auto
  then obtain t where t: "t < 3" "r = minimize t" by blast
  have l1: "nb \<le> length (res_x r)" using opt(1) t by blast
  have l2: "anchor' = None \<longrightarrow> nb < length (res_x r)" using opt(2) t an by blast
  let ?coef = "map softplus (take nb (res_x r))"
  have lc: "length ?coef = nb" using l1 by simp
  obtain icpt where icpt: "fit_intercept nb anchor' ?coef (res_x r) = Inr icpt"
    using fit_intercept_ok[OF lc l2] by auto
  obtain avg where avg: "np_average y ?weights = Inr avg"
    using np_average_ok[of y w'] shape s by auto
  show ?thesis
    unfolding fit_monotone_spline_def Let_def resolve_bound_def w'[symmetric]
    using cfg shape
    by (simp add: create_ispline_basis_eq ispline_row_at_fun[symmetric] anchor_eq rl(1) icpt
        predict_ok[OF lc] broadcast2_same_length weighted_sum_same_length avg)
qed

section \<open>Fitted parameters\<close>

lemma fit_params_valid:
  assumes "fit_monotone_spline x y nb w k sp anchor xmin xmax minimize = Inr (p, info)"
  shows "valid_params p \<and> p_n_basis p = nb \<and> get_degree p = k \<and>
         (\<forall>j < p_n_basis p. 0 < p_coefficients p ! j)"
  using assms
proof (cases rule: fit_monotone_spline_InrE)
  case (fields lo hi result anchor' best_loss icpt residuals)
  show ?thesis
    unfolding fields(9) using fields(3,4,5)
    by (simp add: valid_params_def get_degree_def softplus_pos)
qed

lemma example_fit_runs:
  assumes "length y = length x" "x \<noteq> []" "anchor = None \<or> anchor \<noteq> None"
  shows "\<exists>p info. fit_monotone_spline x y 6 None 3 (1 / 1000) anchor (Some 2) (Some 4) example_minimize
           = Inr (p, info)"
proof (rule fit_monotone_spline_success[where w' = "map (\<lambda>_. 1) x"])
  show "sum_list (map (\<lambda>_. 1 :: real) x) \<noteq> 0"
    using assms(2) by (simp add: sum_list_replicate map_replicate_const)
qed (use assms in \<open>simp_all add: example_minimize_def\<close>)

lemma interior_knots:
  "butlast (tl (linspace a b (m + 2))) =
     map (\<lambda>i. real i * ((b - a) / real (m + 1)) + a) [1..<m + 1]"
  by (rule nth_equalityI) (simp_all add: nth_butlast nth_tl nth_linspace del: upt_Suc)

lemma knot_sequence_layout:
  "knot_sequence a b k m =
     replicate (k + 1) a
     @ map (\<lambda>i. real i * ((b - a) / real (m + 1)) + a) [1..<m + 1]
     @ replicate (k + 1) b"
  unfolding knot_sequence_def interior_knots by (rule refl)

lemma np_clip_bounds: "1/100 \<le> np_clip a (1/100) (99/100) \<and> np_clip a (1/100) (99/100) \<le> 99/100"
  by (simp add: np_clip_def)

lemma logit_bounds:
  fixes p :: real
  assumes "1/100 \<le> p" "p \<le> 99/100"
  shows "ln ((1/100) / (99/100)) \<le> ln (p / (1 - p)) \<and> ln (p / (1 - p)) \<le> ln ((99/100) / (1/100))"
proof -
  have pos: "0 < p" "0 < 1 - p" using assms by auto
  have lo: "(1/100) / (99/100) \<le> p / (1 - p)"
    using assms pos by (simp add: field_simps)
  have hi: "p / (1 - p) \<le> (99/100) / (1/100)"
    using assms pos by (simp add: field_simps)
  have q: "0 < p / (1 - p)" using pos by simp
  show ?thesis using lo hi q by simp
qed

subsection \<open>The knots of an example fit\<close>

lemma example_fit_knots:
  "\<exists>params info.
     fit_monotone_spline [2, 3, 4] [0, 1, 2] 6 None 3 (1 / 1000) None (Some 2) (Some 4)
       example_minimize = Inr (params, info) \<and>
     p_knots params = replicate (3 + 1) 2 @ [5 / 2, 3, 7 / 2] @ replicate (3 + 1) 4"
proof -
  obtain p info where f:
    "fit_monotone_spline [2, 3, 4] [0, 1, 2] 6 None 3 (1 / 1000) None (Some 2) (Some 4)
       example_minimize = Inr (p, info)"
    using example_fit_runs[of "[0, 1, 2]" "[2, 3, 4]" None] by auto
  from f have "p_knots p = knot_sequence 2 4 3 3"
  proof (cases rule: fit_monotone_spline_InrE)
    case (fields lo hi result anchor' best_loss icpt residuals)
    show ?thesis unfolding fields(9) using fields(1,2) by (simp add: resolve_bound_def)
  qed
  also have "\<dots> = replicate (3 + 1) 2 @ [5 / 2, 3, 7 / 2] @ replicate (3 + 1) 4"
    by (simp add: knot_sequence_def linspace_def numeral_eq_Suc)
  finally show ?thesis using f by auto
qed

subsection \<open>The objective of a two-point example\<close>

text \<open>
  Two observations at \<open>x_min = 2\<close> with targets 1 and 0 and weights 1 and 3: every basis
  row is zero there, the objective is \<open>(1 - c)\<^sup>2 / 4 + 3 c\<^sup>2 / 4\<close> plus the smoothness
  term, and its least value \<open>3/16\<close> is taken at the intercept \<open>c = 1/4\<close> with equal
  coefficients, the outcome \<^verbatim>\<open>example_minimizer\<close>.
\<close>

lemma example_basis:
  "create_ispline_basis [2, 2] 6 3 (Some 2) (Some 4)
     = Inr ([replicate 6 0, replicate 6 0], knot_sequence 2 4 3 3)"
proof -
  have "map (\<lambda>j. ispline_value 2 4 3 6 j 2) [0..<6] = replicate 6 0"
    by (rule nth_equalityI) (simp_all add: ispline_value_at_min)
  then show ?thesis by (simp add: create_ispline_basis_eq)
qed

lemma dot_zero_row: "dot (replicate n 0) c = 0"
  unfolding dot_def interv_sum_list_conv_sum_set_nat
  by (rule sum.neutral) simp

lemma example_objective:
  assumes "6 < length params"
  shows "loss 6 [replicate 6 0, replicate 6 0] None [1, 0] (normalize_weights [1, 3]) (1 / 1000) params
    = Inr (Some (1 / 4 * square (1 - params ! 6) + 3 / 4 * square (0 - params ! 6)
         + 1 / 1000 * sum_list (map square (np_diff (map softplus (take 6 params))))))"
proof -
  have l: "length (map softplus (take 6 params)) = 6" using assms by simp
  have i: "fit_intercept 6 None (map softplus (take 6 params)) params = Inr (params ! 6)"
    using assms by (simp add: fit_intercept_def)
  have p: "predict 6 [replicate 6 0, replicate 6 0] (map softplus (take 6 params)) (params ! 6)
      = Inr [params ! 6, params ! 6]"
    unfolding predict_ok[OF l] by (simp add: dot_zero_row)
  have b: "broadcast2 (\<lambda>u v. square (u - v)) [1, 0] [params ! 6, params ! 6]
      = Inr [square (1 - params ! 6), square (0 - params ! 6)]"
    by (simp add: broadcast2_def)
  have w: "weighted_sum (normalize_weights [1, 3])
         (map Some [square (1 - params ! 6), square (0 - params ! 6)])
      = Inr (Some (1 / 4 * square (1 - params ! 6) + 3 / 4 * square (0 - params ! 6)))"
    by (simp add: weighted_sum_def broadcast2_def normalize_weights_def nan_sum_def nan_times_def)
  show ?thesis
    unfolding loss_def Let_def
    by (simp only: i bind_result_Inr p b w option.map)
qed

lemma example_objective_minimum:
  "loss 6 [replicate 6 0, replicate 6 0] None [1, 0] (normalize_weights [1, 3]) (1 / 1000)
     (res_x (example_minimizer trial)) = Inr (Some (3 / 16))"
proof -
  have "np_diff (map softplus (take 6 (replicate 6 0 @ [1 / 4]))) = replicate 5 0"
    by (simp add: np_diff_def numeral_eq_Suc)
  then show ?thesis
    unfolding example_minimizer_def
    by (simp add: example_objective square_def nth_append sum_list_replicate)
qed

lemma example_objective_lower_bound:
  assumes "6 < length params"
  shows "\<exists>v. loss 6 [replicate 6 0, replicate 6 0] None [1, 0] (normalize_weights [1, 3])
                (1 / 1000) params = Inr (Some v) \<and> 3 / 16 \<le> v"
proof -
  let ?c = "params ! 6"
  have s: "0 \<le> sum_list (map square (np_diff (map softplus (take 6 params))))"
    by (rule sum_list_nonneg) (auto simp: square_def)
  have "1 / 4 * square (1 - ?c) + 3 / 4 * square (0 - ?c) = (?c - 1 / 4)\<^sup>2 + 3 / 16"
    by (simp add: square_def power2_eq_square algebra_simps)
  then have "3 / 16 \<le> 1 / 4 * square (1 - ?c) + 3 / 4 * square (0 - ?c)" by simp
  then show ?thesis using s by (simp add: example_objective[OF assms])
qed

lemma example_weighted_fit:
  "\<exists>params info.
     fit_monotone_spline [2, 2] [1, 0] 6 (Some [1, 3]) 3 (1 / 1000) None (Some 2) (Some 4)
       example_minimizer = Inr (params, info) \<and>
     evaluate_monotone_spline [2, 2] params = Inr [1 / 4, 1 / 4] \<and>
     fi_rmse info = Some (sqrt (5 / 16)) \<and>
     weighted_rmse [1, 3] [1 - 1 / 4, 0 - 1 / 4] = sqrt (3 / 16) \<and>
     fi_rmse info \<noteq> Some (weighted_rmse [1, 3] [1 - 1 / 4, 0 - 1 / 4])"
proof -
  have "\<exists>p info. fit_monotone_spline [2, 2] [1, 0] 6 (Some [1, 3]) 3 (1 / 1000) None (Some 2) (Some 4)
       example_minimizer = Inr (p, info)"
    by (rule fit_monotone_spline_success[where w' = "[1, 3]"])
      (simp_all add: example_minimizer_def)
  then obtain p info where f:
    "fit_monotone_spline [2, 2] [1, 0] 6 (Some [1, 3]) 3 (1 / 1000) None (Some 2) (Some 4)
       example_minimizer = Inr (p, info)" by blast
  have w: "weighted_rmse [1, 3] [1 - 1 / 4, 0 - 1 / 4] = sqrt (3 / 16)"
    by (simp add: weighted_rmse_def)
  have ne: "sqrt (5 / 16) \<noteq> sqrt (3 / 16 :: real)"
    by simp
  from f have "evaluate_monotone_spline [2, 2] p = Inr [1 / 4, 1 / 4]
      \<and> fi_rmse info = Some (sqrt (5 / 16))"
  proof (cases rule: fit_monotone_spline_InrE)
    case (fields lo hi result anchor' best_loss icpt residuals)
    have b: "lo = 2" "hi = 4" using fields(1,2) by (simp_all add: resolve_bound_def)
    have an: "anchor' = None" using fields(6) by simp
    have "\<exists>t<3. result = example_minimizer t"
    proof -
      have "\<exists>r l. restart_loop
          (loss 6 (map (ispline_row_at lo hi 3 6) [2, 2]) anchor' [1, 0]
             (normalize_weights (case Some [1, 3] of None \<Rightarrow> map (\<lambda>_. 1) [2, 2] | Some w \<Rightarrow> w))
             (1 / 1000))
          (map example_minimizer [0..<3]) None = Inr (Some (r, l)) \<and>
          (r \<in> set (map example_minimizer [0..<3]) \<or> None = Some (r, l))"
        by (rule restart_loop_finite)
          (auto simp: an example_minimizer_def intro!: loss_finite)
      then have "result \<in> set (map example_minimizer [0..<3])" using fields(7) by auto
      then show ?thesis by auto
    qed
    then have rx: "res_x result = replicate 6 0 @ [1 / 4]" by (auto simp: example_minimizer_def)
    have icpt: "icpt = 1 / 4"
      using fields(8) unfolding an rx by (simp add: fit_intercept_def nth_append)
    have row: "ispline_row_at lo hi 3 6 2 = replicate 6 0"
      unfolding b ispline_row_at_def
      by (rule nth_equalityI) (simp_all add: ispline_value_at_min)
    have res: "residuals = [3 / 4, - (1 / 4)]"
      using fields(10) by (simp add: icpt row dot_zero_row broadcast2_def)
    have rm: "fi_rmse info = Some (sqrt (5 / 16))"
      unfolding fields(11) res by (simp add: np_mean_def square_def)
    have valid: "valid_params p"
      unfolding fields(9) using fields(3,4,5) by (simp add: valid_params_def get_degree_def)
    have cv: "curve_value p 2 = 1 / 4"
      unfolding fields(9) using row[unfolded ispline_row_at_def] icpt
      by (simp add: curve_value_def get_degree_def dot_ispline_row[symmetric] dot_zero_row)
    show ?thesis using valid cv rm by (simp add: evaluate_monotone_spline_eq)
  qed
  then show ?thesis using f w ne by auto
qed

section \<open>The calibration\<close>

lemma valid_params_intercept [simp]:
  "valid_params (p\<lparr>p_intercept := c\<rparr>) = valid_params p"
  by (simp add: valid_params_def get_degree_def)

lemma valid_params_globalIntercept [simp]:
  "valid_params (p\<lparr>p_globalIntercept := g\<rparr>) = valid_params p"
  by (simp add: valid_params_def get_degree_def)

lemma curve_value_intercept:
  "curve_value (p\<lparr>p_intercept := c\<rparr>) xv = c + (curve_value p xv - p_intercept p)"
  by (simp add: curve_value_def get_degree_def)

lemma curve_value_globalIntercept [simp]:
  "curve_value (p\<lparr>p_globalIntercept := g\<rparr>) xv = curve_value p xv"
  by (simp add: curve_value_def get_degree_def)

lemma reanchor_Inr:
  assumes "reanchor a p = Inr p'"
  shows "valid_params p \<and> p' = p\<lparr>p_intercept := p_intercept p - curve_value p a\<rparr>"
  using assms unfolding reanchor_def evaluate_monotone_spline_eq
  by (auto split: if_splits)

lemma reanchor_valid:
  "valid_params p \<Longrightarrow>
     reanchor a p = Inr (p\<lparr>p_intercept := p_intercept p - curve_value p a\<rparr>)"
  unfolding reanchor_def evaluate_monotone_spline_eq by simp

lemma calibrate_splines_InrE:
  assumes "calibrate_splines cells stage1 mg mm = Inr (g, m, info)"
  obtains (steps) d g0 where
    "fit_discrete_effects cells stage1 mg mm = Inr d"
    "reanchor GPA_ANCHOR (df_gpa_params d) = Inr g0"
    "reanchor MCAT_ANCHOR (df_mcat_params d) = Inr m"
    "g = g0\<lparr>p_globalIntercept := Some (df_global_intercept d)\<rparr>"
proof -
  from assms obtain d g0 m0 where
    d: "fit_discrete_effects cells stage1 mg mm = Inr d"
    and g0: "reanchor GPA_ANCHOR (df_gpa_params d) = Inr g0"
    and m0: "reanchor MCAT_ANCHOR (df_mcat_params d) = Inr m0"
    and rest: "(let gpa_params = g0\<lparr>p_globalIntercept := Some (df_global_intercept d)\<rparr>;
           weights = map weight cells;
           n_gpa = length (df_unique_gpas d);
           n_mcat = length (df_unique_mcats d);
           X_gpa = map (\<lambda>c. unit_vector n_gpa (index_of (df_unique_gpas d) (gpaCenter c))) cells;
           X_mcat = map (\<lambda>c. unit_vector n_mcat (index_of (df_unique_mcats d) (mcatCenter c))) cells
       in
       bind_result (matvec n_gpa X_gpa (df_alpha_gpa d)) (\<lambda>pred_gpa.
       bind_result (matvec n_mcat X_mcat (df_alpha_mcat d)) (\<lambda>pred_mcat.
         let pred_logit = map2 (\<lambda>u v. u + v) pred_gpa pred_mcat;
             pred_rates = map expit pred_logit;
             residuals = map2 (\<lambda>u v. u - v) (observed_rates cells) pred_rates;
             ss_res = sum_list (map2 (\<lambda>w r. w * square r) weights residuals);
             rmse = (if ss_res < 0 then None else Some (sqrt ss_res))
         in
         if sum_list weights = 0 then Inl ZeroDivisionError
         else
           let avg = sum_list (map2 (\<lambda>u w. u * w) (observed_rates cells) weights) / sum_list weights;
               ss_tot = sum_list (map2 (\<lambda>w u. w * square (u - avg)) weights (observed_rates cells));
               r2 = (if ss_tot = 0 then None else Some (1 - ss_res / ss_tot))
           in
           bind_result (evaluate_monotone_spline (linspace GPA_MIN GPA_MAX 50) gpa_params)
             (\<lambda>gpa_C_test.
           bind_result (evaluate_monotone_spline (linspace MCAT_MIN MCAT_MAX 50) m0)
             (\<lambda>mcat_C_test.
             let gpa_monotone = list_all (\<lambda>d. d \<ge> - (1 / 10 ^ 10)) (np_diff gpa_C_test);
                 mcat_monotone = list_all (\<lambda>d. d \<ge> - (1 / 10 ^ 10)) (np_diff mcat_C_test)
             in
             Inr (gpa_params, m0,
                  \<lparr>ci_rmse = rmse, ci_r2 = r2,
                    ci_gpa_monotone = gpa_monotone, ci_mcat_monotone = mcat_monotone,
                    ci_converged = res_success stage1, ci_n_iterations = res_nit stage1,
                    ci_anchor_gpa = GPA_ANCHOR, ci_anchor_mcat = MCAT_ANCHOR,
                    ci_gpa_spline_r2 = fi_r2 (df_gpa_info d),
                    ci_mcat_spline_r2 = fi_r2 (df_mcat_info d),
                    ci_global_intercept = df_global_intercept d\<rparr>)))))) = Inr (g, m, info)"
    unfolding calibrate_splines_def bind_result_eq_Inr by blast
  from rest have "g = g0\<lparr>p_globalIntercept := Some (df_global_intercept d)\<rparr> \<and> m = m0"
    unfolding Let_def by (auto simp: bind_result_eq_Inr split: if_splits)
  with d g0 m0 show ?thesis using that by blast
qed

lemma np_argmin_Inr:
  assumes "vs \<noteq> []"
  shows "\<exists>i < length vs. np_argmin vs = Inr i"
proof -
  let ?P = "\<lambda>i. vs ! i = Min (set vs)"
  have "Min (set vs) \<in> set vs" using assms by (intro Min_in) simp_all
  then obtain i where "i < length vs" "?P i" by (auto simp: in_set_conv_nth)
  then have "filter ?P [0..<length vs] \<noteq> []" by (auto simp: filter_empty_conv)
  then have "hd (filter ?P [0..<length vs]) \<in> set (filter ?P [0..<length vs])"
    by (rule hd_in_set)
  then have "hd (filter ?P [0..<length vs]) < length vs" by simp
  then show ?thesis using assms by (simp add: np_argmin_def)
qed

lemma np_unique_nonempty: "vs \<noteq> [] \<Longrightarrow> np_unique vs \<noteq> []"
  unfolding np_unique_def by (metis length_sort length_0_conv remdups_eq_nil_iff)

lemma unweighted_fit_runs:
  assumes "lo < hi" "k \<le> nb" "length y = length x" "x \<noteq> []"
    and "\<And>t. t < 3 \<Longrightarrow> nb < length (res_x (minimize t))"
  shows "\<exists>p info. fit_monotone_spline x y nb None k sp None (Some lo) (Some hi) minimize
           = Inr (p, info)"
proof (rule fit_monotone_spline_success[where w' = "map (\<lambda>_. 1) x"])
  show "sum_list (map (\<lambda>_. 1 :: real) x) \<noteq> 0"
    using assms(4) by (simp add: sum_list_replicate map_replicate_const)
  show "nb \<le> length (res_x (minimize t))" if "t < 3" for t
    using assms(5)[OF that] by simp
qed (use assms in simp_all)

lemma fit_discrete_effects_success:
  assumes ne: "cells \<noteq> []"
    and len: "length (np_unique (map gpaCenter cells)) + length (np_unique (map mcatCenter cells))
               \<le> length (res_x stage1)"
    and og: "\<And>t. t < 3 \<Longrightarrow> 6 < length (res_x (minimize_gpa t))"
    and om: "\<And>t. t < 3 \<Longrightarrow> 6 < length (res_x (minimize_mcat t))"
  shows "\<exists>d. fit_discrete_effects cells stage1 minimize_gpa minimize_mcat = Inr d \<and>
             valid_params (df_gpa_params d) \<and> valid_params (df_mcat_params d) \<and>
             length (df_alpha_gpa d) = length (df_unique_gpas d) \<and>
             length (df_alpha_mcat d) = length (df_unique_mcats d)"
proof -
  let ?ug = "np_unique (map gpaCenter cells)"
  let ?um = "np_unique (map mcatCenter cells)"
  let ?ag = "take (length ?ug) (res_x stage1)"
  let ?am = "take (length ?um) (drop (length ?ug) (res_x stage1))"
  have ugne: "?ug \<noteq> []" and umne: "?um \<noteq> []"
    using ne by (simp_all add: np_unique_nonempty)
  have lag: "length ?ag = length ?ug" and lam: "length ?am = length ?um"
    using len by simp_all
  obtain ig where ig: "ig < length ?ug"
      "np_argmin (map (\<lambda>g. \<bar>g - GPA_ANCHOR\<bar>) ?ug) = Inr ig"
    using np_argmin_Inr[of "map (\<lambda>g. \<bar>g - GPA_ANCHOR\<bar>) ?ug"] ugne by auto
  obtain im where im: "im < length ?um"
      "np_argmin (map (\<lambda>m. \<bar>m - MCAT_ANCHOR\<bar>) ?um) = Inr im"
    using np_argmin_Inr[of "map (\<lambda>m. \<bar>m - MCAT_ANCHOR\<bar>) ?um"] umne by auto
  have ng: "nth_result ?ag ig = Inr (?ag ! ig)"
    unfolding nth_result_def using ig(1) lag by simp
  have nm: "nth_result ?am im = Inr (?am ! im)"
    unfolding nth_result_def using im(1) lam by simp
  obtain pg infg where fg:
    "fit_monotone_spline ?ug (map (\<lambda>a. a - ?ag ! ig) ?ag) GPA_N_BASIS None 3 (1 / 1000) None
       (Some GPA_MIN) (Some GPA_MAX) minimize_gpa = Inr (pg, infg)"
    using unweighted_fit_runs[of GPA_MIN GPA_MAX 3 GPA_N_BASIS "map (\<lambda>a. a - ?ag ! ig) ?ag" ?ug
        minimize_gpa "1 / 1000"] ugne lag og
    by (auto simp: GPA_MIN_def GPA_MAX_def GPA_N_BASIS_def)
  obtain pm infm where fm:
    "fit_monotone_spline ?um (map (\<lambda>a. a - ?am ! im) ?am) MCAT_N_BASIS None 3 (1 / 1000) None
       (Some MCAT_MIN) (Some MCAT_MAX) minimize_mcat = Inr (pm, infm)"
    using unweighted_fit_runs[of MCAT_MIN MCAT_MAX 3 MCAT_N_BASIS "map (\<lambda>a. a - ?am ! im) ?am" ?um
        minimize_mcat "1 / 1000"] umne lam om
    by (auto simp: MCAT_MIN_def MCAT_MAX_def MCAT_N_BASIS_def)
  have "fit_discrete_effects cells stage1 minimize_gpa minimize_mcat =
      Inr \<lparr>df_alpha_gpa = ?ag, df_alpha_mcat = ?am,
           df_unique_gpas = ?ug, df_unique_mcats = ?um,
           df_global_intercept = ?ag ! ig + ?am ! im,
           df_gpa_params = pg, df_gpa_info = infg,
           df_mcat_params = pm, df_mcat_info = infm\<rparr>"
    unfolding fit_discrete_effects_def Let_def ig(2) im(2) bind_result_Inr ng nm fg fm prod.case
    by (rule refl)
  moreover have "valid_params pg" "valid_params pm"
    using fit_params_valid[OF fg] fit_params_valid[OF fm] by simp_all
  ultimately show ?thesis using lag lam by simp
qed

lemma calibrate_splines_success:
  assumes ne: "cells \<noteq> []"
    and len: "length (np_unique (map gpaCenter cells)) + length (np_unique (map mcatCenter cells))
               \<le> length (res_x stage1)"
    and w: "sum_list (map weight cells) \<noteq> 0"
    and og: "\<And>t. t < 3 \<Longrightarrow> 6 < length (res_x (minimize_gpa t))"
    and om: "\<And>t. t < 3 \<Longrightarrow> 6 < length (res_x (minimize_mcat t))"
  shows "\<exists>gpa_params mcat_params info.
           calibrate_splines cells stage1 minimize_gpa minimize_mcat
             = Inr (gpa_params, mcat_params, info)"
proof -
  obtain d where d: "fit_discrete_effects cells stage1 minimize_gpa minimize_mcat = Inr d"
    and v: "valid_params (df_gpa_params d)" "valid_params (df_mcat_params d)"
    and l: "length (df_alpha_gpa d) = length (df_unique_gpas d)"
      "length (df_alpha_mcat d) = length (df_unique_mcats d)"
    using fit_discrete_effects_success[of cells stage1 minimize_gpa minimize_mcat] ne len og om
    by blast
  show ?thesis
    unfolding calibrate_splines_def d bind_result_Inr reanchor_valid[OF v(1)] reanchor_valid[OF v(2)]
      Let_def
    using w v l by (simp add: matvec_def evaluate_monotone_spline_eq)
qed

lemma length_np_unique_le: "length (np_unique vs) \<le> length vs"
  by (simp add: np_unique_def length_remdups_leq)

lemma example_calibration_runs:
  "\<exists>gpa_params mcat_params info.
     calibrate_splines example_cells example_stage1 example_minimize example_minimize
       = Inr (gpa_params, mcat_params, info)"
proof (rule calibrate_splines_success)
  show "length (np_unique (map gpaCenter example_cells))
          + length (np_unique (map mcatCenter example_cells)) \<le> length (res_x example_stage1)"
    using length_np_unique_le[of "map gpaCenter example_cells"]
      length_np_unique_le[of "map mcatCenter example_cells"]
    by (simp add: example_cells_def example_stage1_def)
qed (simp_all add: example_cells_def example_minimize_def)

section \<open>The claims\<close>

text \<open>
  C1.  Every curve returned by \<^verbatim>\<open>fit_monotone_spline\<close> has strictly positive coefficients
  (they are softplus values), and for any two points \<open>x1 \<le> x2\<close> of its domain
  \<open>[x_min, x_max]\<close> the evaluator returns values \<open>v1\<close>, \<open>v2\<close> with
  \<open>v1 \<le> v2\<close>, hence \<open>v1 \<le> v2 + 1e-10\<close>: the fitted curve is non-decreasing on
  its domain.  (Over exact reals.)
\<close>

theorem fitted_curve_monotone:
  assumes fit: "fit_monotone_spline x y n_basis weights degree smoothness_penalty anchor_point
                  x_min x_max minimize = Inr (params, info)"
    and dom: "p_x_min params \<le> x1" "x1 \<le> x2" "x2 \<le> p_x_max params"
  shows "(\<forall>c \<in> set (p_coefficients params). 0 < c) \<and>
         (\<exists>v1 v2. evaluate_monotone_spline [x1] params = Inr [v1] \<and>
                  evaluate_monotone_spline [x2] params = Inr [v2] \<and>
                  v1 \<le> v2 \<and> v1 \<le> v2 + 1 / 10 ^ 10)"
proof -
  note v = fit_params_valid[OF fit]
  have pos: "\<forall>c \<in> set (p_coefficients params). 0 < c"
    unfolding all_set_conv_all_nth using v by (simp add: valid_params_def)
  have m: "curve_value params x1 \<le> curve_value params x2"
  proof (rule curve_value_mono)
    show "p_x_min params < p_x_max params" using v by (simp add: valid_params_def)
    show "0 \<le> p_coefficients params ! j" if "j < p_n_basis params" for j
      using v that by (simp add: less_imp_le)
  qed (use dom in simp_all)
  have "evaluate_monotone_spline [x1] params = Inr [curve_value params x1]"
    "evaluate_monotone_spline [x2] params = Inr [curve_value params x2]"
    using v by (simp_all add: evaluate_monotone_spline_eq)
  moreover have "curve_value params x1 \<le> curve_value params x2 + 1 / 10 ^ 10"
    using m by simp
  ultimately show ?thesis using pos m by blast
qed

theorem fitted_curve_monotone_witness:
  "\<exists>params info.
     fit_monotone_spline [2, 3, 4] [0, 1, 2] 6 None 3 (1 / 1000) None (Some 2) (Some 4)
       example_minimize = Inr (params, info) \<and>
     (\<forall>c \<in> set (p_coefficients params). 0 < c) \<and>
     (\<exists>v1 v2. evaluate_monotone_spline [5 / 2] params = Inr [v1] \<and>
              evaluate_monotone_spline [3] params = Inr [v2] \<and>
              v1 \<le> v2 \<and> v1 \<le> v2 + 1 / 10 ^ 10)"
proof -
  obtain p info where f:
    "fit_monotone_spline [2, 3, 4] [0, 1, 2] 6 None 3 (1 / 1000) None (Some 2) (Some 4)
       example_minimize = Inr (p, info)"
    using example_fit_runs[of "[0, 1, 2]" "[2, 3, 4]" None] by auto
  from f have "p_x_min p = 2 \<and> p_x_max p = 4"
  proof (cases rule: fit_monotone_spline_InrE)
    case (fields lo hi result anchor' best_loss icpt residuals)
    show ?thesis
      unfolding fields(9) using fields(1,2) by (simp add: resolve_bound_def)
  qed
  then have "p_x_min p = 2" "p_x_max p = 4" by simp_all
  then have "p_x_min p \<le> 5 / 2" "(5 / 2 :: real) \<le> 3" "3 \<le> p_x_max p" by simp_all
  from fitted_curve_monotone[OF f this] f show ?thesis by blast
qed

text \<open>
  C2.  When \<^verbatim>\<open>fit_monotone_spline\<close> is given an anchor \<open>(x0, y0)\<close> and returns, the
  intercept is \<open>y0\<close> minus the coefficients' product with the basis row at \<open>x0\<close>, and
  evaluating the returned parameters at \<open>x0\<close> gives exactly \<open>y0\<close>, whatever the data,
  the weights and the optimiser's result.
\<close>

theorem anchored_fit_passes_through_anchor:
  assumes fit: "fit_monotone_spline x y n_basis weights degree smoothness_penalty
                  (Some (x_anchor, y_anchor)) x_min x_max minimize = Inr (params, info)"
  shows "\<exists>basis_anchor knots.
           create_ispline_basis [x_anchor] n_basis degree
             (Some (p_x_min params)) (Some (p_x_max params)) = Inr ([basis_anchor], knots) \<and>
           p_intercept params = y_anchor - dot basis_anchor (p_coefficients params) \<and>
           evaluate_monotone_spline [x_anchor] params = Inr [y_anchor]"
  using fit
proof (cases rule: fit_monotone_spline_InrE)
  case (fields lo hi result anchor' best_loss icpt residuals)
  let ?row = "ispline_row_at lo hi degree n_basis x_anchor"
  let ?coef = "map softplus (take n_basis (res_x result))"
  have basis: "create_ispline_basis [x_anchor] n_basis degree (Some lo) (Some hi) =
      Inr ([?row], knot_sequence lo hi degree (n_basis - degree))"
    using fields(3,4) by (simp add: create_ispline_basis_eq ispline_row_at_def)
  have a: "anchor' = Some (y_anchor, [?row])"
    using fields(6) by (simp add: basis)
  have lc: "length ?coef = n_basis" using fields(5) by simp
  have icpt: "icpt = y_anchor - dot ?row ?coef"
    using fields(8) lc unfolding a by (simp add: fit_intercept_def matvec_def)
  have valid: "valid_params params"
    unfolding fields(9) using fields(3,4,5) by (simp add: valid_params_def get_degree_def)
  have cv: "curve_value params x_anchor = icpt + dot ?row ?coef"
    unfolding fields(9)
    by (simp add: curve_value_def get_degree_def ispline_row_at_def dot_ispline_row)
  have "evaluate_monotone_spline [x_anchor] params = Inr [y_anchor]"
    using valid cv icpt by (simp add: evaluate_monotone_spline_eq)
  moreover have "create_ispline_basis [x_anchor] n_basis degree
      (Some (p_x_min params)) (Some (p_x_max params)) =
      Inr ([?row], knot_sequence lo hi degree (n_basis - degree))"
    unfolding fields(9) using basis by simp
  moreover have "p_intercept params = y_anchor - dot ?row (p_coefficients params)"
    unfolding fields(9) using icpt by simp
  ultimately show ?thesis by blast
qed

theorem anchored_fit_passes_through_anchor_witness:
  "\<exists>params info basis_anchor knots.
     fit_monotone_spline [2, 3, 4] [0, 1, 2] 6 None 3 (1 / 1000) (Some (3, 5)) (Some 2) (Some 4)
       example_minimize = Inr (params, info) \<and>
     create_ispline_basis [3] 6 3 (Some (p_x_min params)) (Some (p_x_max params))
       = Inr ([basis_anchor], knots) \<and>
     p_intercept params = 5 - dot basis_anchor (p_coefficients params) \<and>
     evaluate_monotone_spline [3] params = Inr [5]"
proof -
  obtain p info where f:
    "fit_monotone_spline [2, 3, 4] [0, 1, 2] 6 None 3 (1 / 1000) (Some (3, 5)) (Some 2) (Some 4)
       example_minimize = Inr (p, info)"
    using example_fit_runs[of "[0, 1, 2]" "[2, 3, 4]" "Some (3, 5)"] by auto
  from anchored_fit_passes_through_anchor[OF f] f show ?thesis by blast
qed

text \<open>
  C3.  When \<^verbatim>\<open>calibrate_splines\<close> returns, each curve's intercept is the fitted curve's
  intercept minus that curve's own value at its anchor input; evaluating the returned GPA
  parameters at \<^verbatim>\<open>GPA_ANCHOR\<close> gives 0 and the returned MCAT parameters at
  \<^verbatim>\<open>MCAT_ANCHOR\<close> gives 0 (exactly, over the reals), so the sum of the two values is
  within \<open>1e-6\<close> of 0.
\<close>

theorem calibrated_curves_zero_at_anchor:
  assumes "calibrate_splines cells stage1 minimize_gpa minimize_mcat
             = Inr (gpa_params, mcat_params, info)"
  shows "\<exists>d gpa_at_anchor mcat_at_anchor gpa_value mcat_value.
           fit_discrete_effects cells stage1 minimize_gpa minimize_mcat = Inr d \<and>
           evaluate_monotone_spline [GPA_ANCHOR] (df_gpa_params d) = Inr [gpa_at_anchor] \<and>
           evaluate_monotone_spline [MCAT_ANCHOR] (df_mcat_params d) = Inr [mcat_at_anchor] \<and>
           p_intercept gpa_params = p_intercept (df_gpa_params d) - gpa_at_anchor \<and>
           p_intercept mcat_params = p_intercept (df_mcat_params d) - mcat_at_anchor \<and>
           evaluate_monotone_spline [GPA_ANCHOR] gpa_params = Inr [gpa_value] \<and>
           evaluate_monotone_spline [MCAT_ANCHOR] mcat_params = Inr [mcat_value] \<and>
           gpa_value = 0 \<and> mcat_value = 0 \<and>
           \<bar>gpa_value + mcat_value\<bar> \<le> 1 / 10 ^ 6"
  using assms
proof (cases rule: calibrate_splines_InrE)
  case (steps d g0)
  note g = reanchor_Inr[OF steps(2)] and m = reanchor_Inr[OF steps(3)]
  let ?pg = "df_gpa_params d" and ?pm = "df_mcat_params d"
  have "evaluate_monotone_spline [GPA_ANCHOR] ?pg = Inr [curve_value ?pg GPA_ANCHOR]"
    "evaluate_monotone_spline [MCAT_ANCHOR] ?pm = Inr [curve_value ?pm MCAT_ANCHOR]"
    using g m by (simp_all add: evaluate_monotone_spline_eq)
  moreover have "p_intercept gpa_params = p_intercept ?pg - curve_value ?pg GPA_ANCHOR"
    "p_intercept mcat_params = p_intercept ?pm - curve_value ?pm MCAT_ANCHOR"
    using g m steps(4) by simp_all
  moreover have "evaluate_monotone_spline [GPA_ANCHOR] gpa_params = Inr [0]"
    using g unfolding steps(4) by (simp add: evaluate_monotone_spline_eq curve_value_intercept)
  moreover have "evaluate_monotone_spline [MCAT_ANCHOR] mcat_params = Inr [0]"
    using m by (simp add: evaluate_monotone_spline_eq curve_value_intercept)
  ultimately show ?thesis using steps(1) by simp
qed

theorem calibrated_curves_zero_at_anchor_witness:
  "\<exists>gpa_params mcat_params info.
     calibrate_splines example_cells example_stage1 example_minimize example_minimize
       = Inr (gpa_params, mcat_params, info) \<and>
     evaluate_monotone_spline [GPA_ANCHOR] gpa_params = Inr [0] \<and>
     evaluate_monotone_spline [MCAT_ANCHOR] mcat_params = Inr [0]"
proof -
  obtain g m info where c:
    "calibrate_splines example_cells example_stage1 example_minimize example_minimize
       = Inr (g, m, info)"
    using example_calibration_runs by blast
  from calibrated_curves_zero_at_anchor[OF c] c show ?thesis by blast
qed

text \<open>
  C4, as amended.  For every basis configuration with \<open>x_min < x_max\<close> and
  \<open>degree \<le> n_basis\<close>, each column of the normalised I-spline basis is exactly 0 at
  \<open>x_min\<close> and exactly 1 at \<open>x_max\<close>; the un-normalised value of every column at
  \<open>x_max\<close> is 1, so no divisor is zero.
\<close>

theorem basis_boundary_values:
  assumes "x_min < x_max" "degree \<le> n_basis"
  shows "create_ispline_basis [x_min, x_max] n_basis degree (Some x_min) (Some x_max) =
           Inr ([replicate n_basis 0, replicate n_basis 1],
                knot_sequence x_min x_max degree (n_basis - degree)) \<and>
         (\<exists>bspline_at_max knots.
            create_bspline_basis [x_max] (n_basis + 1) degree (Some x_min) (Some x_max) =
              Inr ([bspline_at_max], knots) \<and>
            reverse_cumsum (tl bspline_at_max) = replicate n_basis 1)"
proof -
  have r0: "map (\<lambda>j. ispline_value x_min x_max degree n_basis j x_min) [0..<n_basis] =
      replicate n_basis 0"
    by (rule nth_equalityI) (simp_all add: ispline_value_at_min[OF assms(1)])
  have r1: "map (\<lambda>j. ispline_value x_min x_max degree n_basis j x_max) [0..<n_basis] =
      replicate n_basis 1"
    by (rule nth_equalityI) (simp_all add: ispline_value_at_max[OF assms])
  have "create_ispline_basis [x_min, x_max] n_basis degree (Some x_min) (Some x_max) =
           Inr ([replicate n_basis 0, replicate n_basis 1],
                knot_sequence x_min x_max degree (n_basis - degree))"
    using assms by (simp add: create_ispline_basis_eq r0 r1)
  moreover have "create_bspline_basis [x_max] (n_basis + 1) degree (Some x_min) (Some x_max) =
      Inr ([bspline_row (knot_sequence x_min x_max degree (n_basis - degree)) degree
              (Suc n_basis) x_max],
           knot_sequence x_min x_max degree (n_basis - degree))"
    using assms by (simp add: create_bspline_basis_Suc)
  moreover have "reverse_cumsum (tl (bspline_row
      (knot_sequence x_min x_max degree (n_basis - degree)) degree (Suc n_basis) x_max)) =
      replicate n_basis 1"
    using ispline_row[OF assms, of x_max] r1 by simp
  ultimately show ?thesis by blast
qed

theorem basis_boundary_values_witness:
  "create_ispline_basis [2, 4] 6 3 (Some 2) (Some 4) =
     Inr ([[0, 0, 0, 0, 0, 0], [1, 1, 1, 1, 1, 1]], [2, 2, 2, 2, 5 / 2, 3, 7 / 2, 4, 4, 4, 4])"
proof -
  have k: "knot_sequence 2 4 3 3 = [2, 2, 2, 2, 5 / 2, 3, 7 / 2, 4, 4, 4, 4]"
    by (simp add: knot_sequence_def linspace_def numeral_eq_Suc)
  have r: "replicate 6 (0::real) = [0, 0, 0, 0, 0, 0]" "replicate 6 (1::real) = [1, 1, 1, 1, 1, 1]"
    by (simp_all add: numeral_eq_Suc)
  show ?thesis using basis_boundary_values[of 2 4 3 6] by (simp add: k r)
qed

text \<open>
  C4 as stated also covers \<open>n_basis < degree\<close>.  There the B-spline constructor
  rejects the knots (there are fewer coefficients than the knots require) and no basis is
  built: with \<open>n_basis = 1\<close>, \<open>degree = 3\<close> on \<open>[0, 1]\<close> the call raises ValueError.
\<close>

theorem basis_rejected_below_degree:
  "create_ispline_basis [0, 1] 1 3 (Some 0) (Some 1) = Inl ValueError"
  by (simp add: create_ispline_basis_eq)

text \<open>
  C5, as amended.  When the weights (one per observation, at least one) sum to zero,
  \<^verbatim>\<open>fit_monotone_spline\<close> does not reject them: the renormalisation divides by the zero
  sum, every normalised weight is not a number, the objective is nan at every restart, no
  restart is kept as the best, and the call fails with AttributeError when it reads the
  missing best result (for a valid basis configuration and optimiser vectors of the
  expected length).
\<close>

theorem zero_weight_sum_fails_late:
  assumes "x_min < x_max" "degree \<le> n_basis"
    and "length y = length x" "length weights = length x" "weights \<noteq> []"
    and "sum_list weights = 0"
    and "\<And>trial. trial < 3 \<Longrightarrow> n_basis \<le> length (res_x (minimize trial))"
    and "\<And>trial. anchor_point = None \<Longrightarrow> trial < 3 \<Longrightarrow> n_basis < length (res_x (minimize trial))"
  shows "set (normalize_weights weights) = {None} \<and>
         fit_monotone_spline x y n_basis (Some weights) degree smoothness_penalty anchor_point
           (Some x_min) (Some x_max) minimize = Inl AttributeError"
proof -
  have "fit_monotone_spline x y n_basis (Some weights) degree smoothness_penalty anchor_point
           (Some x_min) (Some x_max) minimize = Inl AttributeError"
    using assms by (rule fit_zero_weight_sum)
  moreover have "set (normalize_weights weights) = {None}"
    using assms(5,6) by (cases weights) (auto simp: normalize_weights_zero)
  ultimately show ?thesis by simp
qed

theorem zero_weight_sum_fails_late_witness:
  "set (normalize_weights [1, - 1]) = {None} \<and>
   fit_monotone_spline [2, 3] [0, 1] 6 (Some [1, - 1]) 3 (1 / 1000) (Some (3, 5)) (Some 2) (Some 4)
     example_minimize = Inl AttributeError"
  by (rule zero_weight_sum_fails_late) (simp_all add: example_minimize_def)

text \<open>
  C5 as stated fails for the weights \<open>[0, 0]\<close>: the division is performed and the
  error is not one of configuration.
\<close>

theorem zero_weights_not_rejected:
  "normalize_weights [0, 0] = [None, None] \<and>
   fit_monotone_spline [2, 3] [0, 1] 6 (Some [0, 0]) 3 (1 / 1000) None (Some 2) (Some 4)
     example_minimize = Inl AttributeError"
proof -
  have "fit_monotone_spline [2, 3] [0, 1] 6 (Some [0, 0]) 3 (1 / 1000) None (Some 2) (Some 4)
     example_minimize = Inl AttributeError"
    by (rule fit_zero_weight_sum) (simp_all add: example_minimize_def)
  then show ?thesis by (simp add: normalize_weights_def)
qed

text \<open>
  C6.  Every log-odds value that \<^verbatim>\<open>calibrate_splines\<close> computes from the cells'
  acceptance rates lies between \<open>log(0.01/0.99)\<close> and \<open>log(0.99/0.01)\<close>, whatever the
  observed rate (0 and 1 included): the rate is clamped to \<open>[0.01, 0.99]\<close> first.
\<close>

theorem observed_logit_clamped:
  "v \<in> set (observed_logit cells) \<Longrightarrow>
     ln ((1/100) / (99/100)) \<le> v \<and> v \<le> ln ((99/100) / (1/100))"
proof -
  assume "v \<in> set (observed_logit cells)"
  then obtain c :: cell where v: "v = ln (np_clip (acceptanceRate c) (1/100) (99/100) / (1 - np_clip (acceptanceRate c) (1/100) (99/100)))"
    unfolding observed_logit_def observed_rates_def by auto
  show ?thesis unfolding v
    by (rule logit_bounds) (simp_all add: np_clip_def)
qed

theorem observed_logit_clamped_witness:
  "observed_logit
     [\<lparr>gpaCenter = 3, mcatCenter = 500, acceptanceRate = 0, weight = 1\<rparr>,
      \<lparr>gpaCenter = 4, mcatCenter = 520, acceptanceRate = 1, weight = 1\<rparr>]
     = [ln ((1 / 100) / (1 - 1 / 100)), ln ((99 / 100) / (1 - 99 / 100))] \<and>
   ln ((1 / 100) / (99 / 100)) \<le> ln ((1 / 100) / (1 - 1 / 100) :: real) \<and>
   ln ((1 / 100) / (1 - 1 / 100) :: real) \<le> ln ((99 / 100) / (1 / 100))"
  using observed_logit_clamped [of "ln ((1 / 100) / (1 - 1 / 100))"
      "[\<lparr>gpaCenter = 3, mcatCenter = 500, acceptanceRate = 0, weight = 1\<rparr>,
        \<lparr>gpaCenter = 4, mcatCenter = 520, acceptanceRate = 1, weight = 1\<rparr>]"]
  by (simp add: observed_logit_def observed_rates_def np_clip_def)

text \<open>
  C7, as amended.  The knot sequence recorded in the fitted parameters is determined by
  \<open>n_basis\<close>, \<open>degree\<close>, \<open>x_min\<close> and \<open>x_max\<close>: \<open>degree + 1\<close> knots at
  \<open>x_min\<close>, then \<open>n_basis - degree\<close> interior knots evenly spaced strictly between
  \<open>x_min\<close> and \<open>x_max\<close> (none when \<open>n_basis = degree\<close>), then \<open>degree + 1\<close> knots
  at \<open>x_max\<close>.  The I-spline basis is built from \<open>n_basis + 1\<close> B-splines, which is
  where the count comes from.
\<close>

theorem fitted_knot_sequence:
  assumes fit: "fit_monotone_spline x y n_basis weights degree smoothness_penalty anchor_point
                  x_min x_max minimize = Inr (params, info)"
  shows "degree \<le> n_basis \<and> p_x_min params < p_x_max params \<and>
         p_knots params =
           replicate (degree + 1) (p_x_min params)
           @ map (\<lambda>i. real i * ((p_x_max params - p_x_min params) / real (n_basis - degree + 1))
                       + p_x_min params) [1..<n_basis - degree + 1]
           @ replicate (degree + 1) (p_x_max params) \<and>
         (\<forall>i \<in> set [1..<n_basis - degree + 1].
            p_x_min params
              < real i * ((p_x_max params - p_x_min params) / real (n_basis - degree + 1))
                + p_x_min params \<and>
            real i * ((p_x_max params - p_x_min params) / real (n_basis - degree + 1))
                + p_x_min params < p_x_max params)"
  using fit
proof (cases rule: fit_monotone_spline_InrE)
  case (fields lo hi result anchor' best_loss icpt residuals)
  let ?m = "n_basis - degree"
  have strict: "lo < real i * ((hi - lo) / real (?m + 1)) + lo \<and>
      real i * ((hi - lo) / real (?m + 1)) + lo < hi" if "i \<in> set [1..<?m + 1]" for i
  proof -
    have i: "1 \<le> i" "i \<le> ?m" using that by auto
    let ?step = "(hi - lo) / real (?m + 1)"
    have step: "0 < ?step" using fields(3) by simp
    have "0 < real i" using i(1) by simp
    then have "0 < real i * ?step" using step by (rule mult_pos_pos)
    moreover have "real i * ?step < real (?m + 1) * ?step"
      using i(2) step by (intro mult_strict_right_mono) simp_all
    moreover have "real (?m + 1) * ?step = hi - lo" by simp
    ultimately show ?thesis by linarith
  qed
  show ?thesis
    unfolding fields(9) using fields(3,4) strict
    by (simp add: knot_sequence_layout del: upt_Suc)
qed

theorem fitted_knot_sequence_witness:
  "\<exists>params info.
     fit_monotone_spline [2, 3, 4] [0, 1, 2] 6 None 3 (1 / 1000) None (Some 2) (Some 4)
       example_minimize = Inr (params, info) \<and>
     p_knots params = [2, 2, 2, 2, 5 / 2, 3, 7 / 2, 4, 4, 4, 4]"
proof -
  obtain p info where f:
    "fit_monotone_spline [2, 3, 4] [0, 1, 2] 6 None 3 (1 / 1000) None (Some 2) (Some 4)
       example_minimize = Inr (p, info)"
    using example_fit_runs[of "[0, 1, 2]" "[2, 3, 4]" None] by auto
  from f have b: "p_x_min p = 2 \<and> p_x_max p = 4"
  proof (cases rule: fit_monotone_spline_InrE)
    case (fields lo hi result anchor' best_loss icpt residuals)
    show ?thesis unfolding fields(9) using fields(1,2) by (simp add: resolve_bound_def)
  qed
  have "p_knots p = [2, 2, 2, 2, 5 / 2, 3, 7 / 2, 4, 4, 4, 4]"
    using fitted_knot_sequence[OF f] b by (simp add: numeral_eq_Suc)
  then show ?thesis using f by blast
qed

text \<open>
  C7 as stated gives \<open>max(n_basis - degree - 1, 0)\<close> interior knots.  A fit with
  \<open>n_basis = 6\<close> and \<open>degree = 3\<close> on \<open>[2, 4]\<close> records three interior knots, not two.
\<close>

theorem fitted_knots_have_extra_interior_knot:
  "map_sum id (p_knots \<circ> fst)
     (fit_monotone_spline [2, 3, 4] [0, 1, 2] 6 None 3 (1 / 1000) None (Some 2) (Some 4)
        example_minimize)
     = Inr (replicate (3 + 1) 2 @ [5 / 2, 3, 7 / 2] @ replicate (3 + 1) 4) \<and>
   length [5 / 2, 3, 7 / 2 :: real] \<noteq> nat (max (6 - 3 - 1) 0)"
  using example_fit_knots by auto

text \<open>
  C8.  The claim is that the \<open>rmse\<close> diagnostic is the weighted root-mean-square error.
  The code takes the plain mean of the squared residuals.  For two observations with targets
  \<open>[1, 0]\<close> and weights \<open>[1, 3]\<close>, fitted at the minimiser of the objective (both
  predictions \<open>1/4\<close>), it reports \<open>sqrt (5/16)\<close>, where the weighted error is
  \<open>sqrt (3/16)\<close>.
\<close>

theorem rmse_ignores_weights:
  "map_sum id (fi_rmse \<circ> snd)
     (fit_monotone_spline [2, 2] [1, 0] 6 (Some [1, 3]) 3 (1 / 1000) None (Some 2) (Some 4)
        example_minimizer)
     = Inr (Some (sqrt (5 / 16))) \<and>
   bind_result
     (fit_monotone_spline [2, 2] [1, 0] 6 (Some [1, 3]) 3 (1 / 1000) None (Some 2) (Some 4)
        example_minimizer)
     (evaluate_monotone_spline [2, 2] \<circ> fst)
     = Inr [1 / 4, 1 / 4] \<and>
   weighted_rmse [1, 3] [1 - 1 / 4, 0 - 1 / 4] = sqrt (3 / 16) \<and>
   sqrt (5 / 16) \<noteq> weighted_rmse [1, 3] [1 - 1 / 4, 0 - 1 / 4]"
proof -
  obtain params info where f:
    "fit_monotone_spline [2, 2] [1, 0] 6 (Some [1, 3]) 3 (1 / 1000) None (Some 2) (Some 4)
       example_minimizer = Inr (params, info)"
    and e: "evaluate_monotone_spline [2, 2] params = Inr [1 / 4, 1 / 4]"
    and r: "fi_rmse info = Some (sqrt (5 / 16))"
    and w: "weighted_rmse [1, 3] [1 - 1 / 4, 0 - 1 / 4] = sqrt (3 / 16)"
    using example_weighted_fit by blast
  show ?thesis unfolding f w using e r by simp
qed

text \<open>
  C9.  For every parameter record and every point, the inline evaluator
  \<^verbatim>\<open>evaluate_spline\<close> of calibrate\_schools.py returns what
  \<^verbatim>\<open>evaluate_monotone_spline\<close> of spline\_fitting.py returns for the one-point array
  (its first entry, or the same exception): the two basis constructions agree.
\<close>

theorem evaluate_spline_refines:
  "evaluate_spline x params =
     bind_result (evaluate_monotone_spline [x] params) (\<lambda>r. Inr (r ! 0))"
  unfolding evaluate_spline_def evaluate_monotone_spline_def schools_create_ispline_basis_def
    create_ispline_basis_def create_bspline_basis_def eval_bspline_basis_def
    knot_sequence_def n_interior_knots_def resolve_bound_def bind_result_def Let_def
  by (auto split: sum.splits prod.splits)

text \<open>
  C10.  When \<^verbatim>\<open>calibrate_splines\<close> returns, the re-anchoring of each fitted curve has
  changed only its \<^verbatim>\<open>intercept\<close>: the coefficients, \<^verbatim>\<open>n_basis\<close>, \<^verbatim>\<open>degree\<close>,
  \<^verbatim>\<open>x_min\<close>, \<^verbatim>\<open>x_max\<close> and the knots of the returned parameters are those of the
  fit (the GPA record then also receives \<^verbatim>\<open>globalIntercept\<close>, on the following line),
  and for every two points the difference of the curve's values is the same before and
  after, so the order of the two values is too.
\<close>

theorem reanchoring_changes_only_intercept:
  assumes "calibrate_splines cells stage1 minimize_gpa minimize_mcat
             = Inr (gpa_params, mcat_params, info)"
  shows "\<exists>d gpa_fitted mcat_fitted gpa_reanchored.
           fit_discrete_effects cells stage1 minimize_gpa minimize_mcat = Inr d \<and>
           gpa_fitted = df_gpa_params d \<and> mcat_fitted = df_mcat_params d \<and>
           reanchor GPA_ANCHOR gpa_fitted = Inr gpa_reanchored \<and>
           reanchor MCAT_ANCHOR mcat_fitted = Inr mcat_params \<and>
           gpa_reanchored = gpa_fitted\<lparr>p_intercept := p_intercept gpa_reanchored\<rparr> \<and>
           mcat_params = mcat_fitted\<lparr>p_intercept := p_intercept mcat_params\<rparr> \<and>
           gpa_params = gpa_reanchored\<lparr>p_globalIntercept := Some (df_global_intercept d)\<rparr> \<and>
           p_coefficients gpa_params = p_coefficients gpa_fitted \<and>
           p_n_basis gpa_params = p_n_basis gpa_fitted \<and>
           p_degree gpa_params = p_degree gpa_fitted \<and>
           p_x_min gpa_params = p_x_min gpa_fitted \<and>
           p_x_max gpa_params = p_x_max gpa_fitted \<and>
           p_knots gpa_params = p_knots gpa_fitted \<and>
           p_coefficients mcat_params = p_coefficients mcat_fitted \<and>
           p_n_basis mcat_params = p_n_basis mcat_fitted \<and>
           p_degree mcat_params = p_degree mcat_fitted \<and>
           p_x_min mcat_params = p_x_min mcat_fitted \<and>
           p_x_max mcat_params = p_x_max mcat_fitted \<and>
           p_knots mcat_params = p_knots mcat_fitted \<and>
           (\<exists>u1 u2 v1 v2.
              evaluate_monotone_spline [x1, x2] gpa_fitted = Inr [u1, u2] \<and>
              evaluate_monotone_spline [x1, x2] gpa_params = Inr [v1, v2] \<and>
              v2 - v1 = u2 - u1 \<and> (v1 \<le> v2 \<longleftrightarrow> u1 \<le> u2)) \<and>
           (\<exists>u1 u2 v1 v2.
              evaluate_monotone_spline [z1, z2] mcat_fitted = Inr [u1, u2] \<and>
              evaluate_monotone_spline [z1, z2] mcat_params = Inr [v1, v2] \<and>
              v2 - v1 = u2 - u1 \<and> (v1 \<le> v2 \<longleftrightarrow> u1 \<le> u2))"
  using assms
proof (cases rule: calibrate_splines_InrE)
  case (steps d g0)
  note g = reanchor_Inr[OF steps(2)] and m = reanchor_Inr[OF steps(3)]
  let ?pg = "df_gpa_params d" and ?pm = "df_mcat_params d"
  have g0: "g0 = ?pg\<lparr>p_intercept := p_intercept g0\<rparr>"
    using g by simp
  have m0: "mcat_params = ?pm\<lparr>p_intercept := p_intercept mcat_params\<rparr>"
    using m by simp
  have fg: "p_coefficients gpa_params = p_coefficients ?pg \<and>
           p_n_basis gpa_params = p_n_basis ?pg \<and>
           p_degree gpa_params = p_degree ?pg \<and>
           p_x_min gpa_params = p_x_min ?pg \<and>
           p_x_max gpa_params = p_x_max ?pg \<and>
           p_knots gpa_params = p_knots ?pg"
    unfolding steps(4) using g by simp
  have fm: "p_coefficients mcat_params = p_coefficients ?pm \<and>
           p_n_basis mcat_params = p_n_basis ?pm \<and>
           p_degree mcat_params = p_degree ?pm \<and>
           p_x_min mcat_params = p_x_min ?pm \<and>
           p_x_max mcat_params = p_x_max ?pm \<and>
           p_knots mcat_params = p_knots ?pm"
    using m by simp
  have eg: "\<exists>u1 u2 v1 v2.
              evaluate_monotone_spline [x1, x2] ?pg = Inr [u1, u2] \<and>
              evaluate_monotone_spline [x1, x2] gpa_params = Inr [v1, v2] \<and>
              v2 - v1 = u2 - u1 \<and> (v1 \<le> v2 \<longleftrightarrow> u1 \<le> u2)"
    unfolding steps(4) using g
    by (simp add: evaluate_monotone_spline_eq curve_value_intercept)
  have em: "\<exists>u1 u2 v1 v2.
              evaluate_monotone_spline [z1, z2] ?pm = Inr [u1, u2] \<and>
              evaluate_monotone_spline [z1, z2] mcat_params = Inr [v1, v2] \<and>
              v2 - v1 = u2 - u1 \<and> (v1 \<le> v2 \<longleftrightarrow> u1 \<le> u2)"
    using m by (simp add: evaluate_monotone_spline_eq curve_value_intercept)
  show ?thesis
    using steps(1,2,3,4) g0 m0 fg fm eg em by blast
qed

theorem reanchoring_changes_only_intercept_witness:
  "\<exists>gpa_params mcat_params info d.
     calibrate_splines example_cells example_stage1 example_minimize example_minimize
       = Inr (gpa_params, mcat_params, info) \<and>
     fit_discrete_effects example_cells example_stage1 example_minimize example_minimize = Inr d \<and>
     p_coefficients gpa_params = p_coefficients (df_gpa_params d) \<and>
     p_knots mcat_params = p_knots (df_mcat_params d) \<and>
     (\<exists>u1 u2 v1 v2.
        evaluate_monotone_spline [3, 4] (df_gpa_params d) = Inr [u1, u2] \<and>
        evaluate_monotone_spline [3, 4] gpa_params = Inr [v1, v2] \<and>
        v2 - v1 = u2 - u1)"
proof -
  obtain g m info where c:
    "calibrate_splines example_cells example_stage1 example_minimize example_minimize
       = Inr (g, m, info)"
    using example_calibration_runs by blast
  from reanchoring_changes_only_intercept[OF c, of 3 4 500 520] c show ?thesis
    by (elim exE conjE) blast
qed

end
